theory Spec2Isabelle
  imports Complex_Main
begin

section \<open>Audio to guitar tablature: the pitch-to-tab pipeline of app.py\<close>

text \<open>
  The embedding follows \<^verbatim>\<open>hz_to_midi\<close>, \<^verbatim>\<open>midi_to_fret\<close> and \<^verbatim>\<open>generate_tabs\<close>.
  The audio decoder and the pitch tracker (librosa) are outside the model: their result,
  the arrays \<^verbatim>\<open>f0\<close> and \<^verbatim>\<open>voiced_flag\<close>, is the input of the model.

  A finite float64 is modelled as the real number it denotes, NaN as \<open>None\<close>. The
  arithmetic of \<^verbatim>\<open>hz_to_midi\<close> rounds every result to the nearest float64 (\<open>fl\<close> below),
  and its logarithm can give minus infinity.
\<close>

subsection \<open>Values\<close>

type_synonym f64 = "real option"

text \<open>A float64 that may also be minus infinity: what \<^verbatim>\<open>np.log2\<close> and the arithmetic
  after it can give.\<close>

datatype np_float = Val f64 | NegInf

datatype error = IndexError | KeyError | OverflowError

text \<open>The newline character.\<close>

abbreviation NL :: string where
  "NL \<equiv> [CHR 0x0A]"

subsection \<open>Rounding\<close>

text \<open>Python's \<^verbatim>\<open>round\<close> with one argument: the nearest integer, a tie going to the
  even one.\<close>

definition py_round :: "real \<Rightarrow> int" where
  "py_round x =
     (let f = \<lfloor>x\<rfloor>; d = x - of_int f in
      if d < 1 / 2 then f
      else if 1 / 2 < d then f + 1
      else if even f then f else f + 1)"

text \<open>The rounding of float64 arithmetic (IEEE 754 binary64, round to nearest, ties to
  even): a significand of 53 bits at the binary exponent of the value, which is at least
  \<open>- 1022\<close>, so that the values below \<open>2 powi (- 1022)\<close> are rounded to multiples of
  \<open>2 powi (- 1074)\<close> (gradual underflow, down to 0). Overflow is left out: no result of
  \<^verbatim>\<open>hz_to_midi\<close> on a finite float64 comes near \<open>2 powi 1024\<close>.\<close>

definition exponent :: "real \<Rightarrow> int" where
  "exponent x = max \<lfloor>log 2 \<bar>x\<bar>\<rfloor> (- 1022)"

definition fl :: "real \<Rightarrow> real" where
  "fl x =
     (if x = 0 then 0
      else of_int (py_round (x * 2 powi (52 - exponent x))) * 2 powi (exponent x - 52))"

subsection \<open>hz\_to\_midi\<close>

text \<open>\<^verbatim>\<open>np.where(frequencies == 0, np.nan, frequencies)\<close>, at one element: NaN compares
  unequal to 0 and stays NaN.\<close>

definition where_zero_nan :: "f64 \<Rightarrow> f64" where
  "where_zero_nan x = (case x of None \<Rightarrow> None | Some f \<Rightarrow> if f = 0 then None else Some f)"

text \<open>\<^verbatim>\<open>np.log2\<close> at one element: NaN for NaN and for a negative argument (numpy warns,
  it does not raise), minus infinity at 0 (of either sign), and otherwise the binary
  logarithm as a float64. The library's logarithm is taken to be correctly rounded; an
  implementation stays within about one unit in the last place of that.\<close>

definition np_log2 :: "f64 \<Rightarrow> np_float" where
  "np_log2 x =
     (case x of
        None \<Rightarrow> Val None
      | Some d \<Rightarrow>
          if d < 0 then Val None
          else if d = 0 then NegInf
          else Val (Some (fl (log 2 d))))"

text \<open>\<^verbatim>\<open>12 * np.log2(frequencies / 440.0) + 69\<close> at one element: the quotient, the
  product and the sum are each rounded; minus infinity stays minus infinity.\<close>

definition hz_to_midi1 :: "f64 \<Rightarrow> np_float" where
  "hz_to_midi1 x =
     (case np_log2 (map_option (\<lambda>f. fl (f / 440)) (where_zero_nan x)) of
        NegInf \<Rightarrow> NegInf
      | Val l \<Rightarrow> Val (map_option (\<lambda>l. fl (fl (12 * l) + 69)) l))"

definition hz_to_midi :: "f64 list \<Rightarrow> np_float list" where
  "hz_to_midi frequencies = map hz_to_midi1 frequencies"

text \<open>The order \<open>\<le>\<close> of float64 on such values: minus infinity is below every number,
  and NaN compares with nothing.\<close>

definition semitone_le :: "np_float \<Rightarrow> np_float \<Rightarrow> bool" where
  "semitone_le a b =
     (case a of
        NegInf \<Rightarrow> (case b of NegInf \<Rightarrow> True | Val None \<Rightarrow> False | Val (Some y) \<Rightarrow> True)
      | Val None \<Rightarrow> False
      | Val (Some x) \<Rightarrow>
          (case b of NegInf \<Rightarrow> False | Val None \<Rightarrow> False | Val (Some y) \<Rightarrow> x \<le> y))"

subsection \<open>midi\_to\_fret\<close>

text \<open>The note is a number here. The difference \<^verbatim>\<open>midi_note - string_tune\<close> is taken
  exactly: for the open strings of the tuning below (40 to 64) the float64 difference
  is exact wherever the fret is valid, and lies on the same side of the bounds
  elsewhere.\<close>

definition midi_to_fret :: "real \<Rightarrow> int \<Rightarrow> int" where
  "midi_to_fret midi_note string_tune =
     (let fret = py_round (midi_note - of_int string_tune) in
      if 0 \<le> fret \<and> fret \<le> 24 then fret else - 1)"

subsection \<open>generate\_tabs: the tuning and the tab lines\<close>

text \<open>A dict keeps its insertion order, and the loops of \<^verbatim>\<open>generate_tabs\<close> run in that
  order: a dict is an association list.\<close>

definition guitar_tuning :: "(string \<times> int) list" where
  "guitar_tuning =
     [(''e'', 64), (''B'', 59), (''G'', 55), (''D'', 50), (''A'', 45), (''E'', 40)]"

type_synonym tab_lines = "(string \<times> string list) list"

text \<open>\<^verbatim>\<open>{k: [] for k in guitar_tuning.keys()}\<close>\<close>

definition empty_tab_lines :: tab_lines where
  "empty_tab_lines = map (\<lambda>(k, _). (k, [])) guitar_tuning"

text \<open>\<^verbatim>\<open>d[k]\<close> raises KeyError for a key that is not there.\<close>

definition dict_get :: "('k \<times> 'v) list \<Rightarrow> 'k \<Rightarrow> error + 'v" where
  "dict_get d k = (case map_of d k of None \<Rightarrow> Inl KeyError | Some v \<Rightarrow> Inr v)"

subsection \<open>generate\_tabs: masking and decimation\<close>

text \<open>\<^verbatim>\<open>f0[~voiced_flag] = np.nan\<close>: a boolean mask of another length raises
  IndexError.\<close>

definition mask_unvoiced :: "f64 list \<Rightarrow> bool list \<Rightarrow> error + f64 list" where
  "mask_unvoiced f0 voiced_flag =
     (if length voiced_flag = length f0
      then Inr (map (\<lambda>(f, v). if v then f else None) (zip f0 voiced_flag))
      else Inl IndexError)"

definition step :: nat where
  "step = 5"

text \<open>The slice \<^verbatim>\<open>xs[::k]\<close> for a positive \<open>k\<close>: the first element, then the slice of what
  follows the next \<open>k - 1\<close> elements.\<close>

fun stride :: "nat \<Rightarrow> 'a list \<Rightarrow> 'a list" where
  "stride k [] = []"
| "stride k (x # xs) = x # stride k (drop (k - 1) xs)"

subsection \<open>generate\_tabs: one note\<close>

text \<open>The loop over \<^verbatim>\<open>guitar_tuning.items()\<close>, on the state
  \<^verbatim>\<open>(best_string, min_fret)\<close>.\<close>

fun best_string_loop ::
  "real \<Rightarrow> (string \<times> int) list \<Rightarrow> string option \<times> int \<Rightarrow> string option \<times> int" where
  "best_string_loop note [] st = st"
| "best_string_loop note ((string_name, string_pitch) # rest) (best_string, min_fret) =
     (let fret = midi_to_fret note string_pitch in
      if fret \<noteq> - 1 \<and> fret < min_fret
      then best_string_loop note rest (Some string_name, fret)
      else best_string_loop note rest (best_string, min_fret))"

text \<open>\<^verbatim>\<open>str\<close> of an integer, in decimal; \<open>digit\<close> is only used below 10.\<close>

definition digit :: "nat \<Rightarrow> char" where
  "digit d = ''0123456789'' ! d"

fun str_nat :: "nat \<Rightarrow> string" where
  "str_nat n = (if n < 10 then [digit n] else str_nat (n div 10) @ [digit (n mod 10)])"

declare str_nat.simps [simp del]

definition str_int :: "int \<Rightarrow> string" where
  "str_int i = (if i < 0 then CHR ''-'' # str_nat (nat (- i)) else str_nat (nat i))"

text \<open>The body of the loop over \<^verbatim>\<open>processed_notes\<close>: every line gets one more symbol.\<close>

definition process_note :: "f64 \<Rightarrow> tab_lines \<Rightarrow> tab_lines" where
  "process_note note tabs =
     (case note of
        None \<Rightarrow> map (\<lambda>(string, syms). (string, syms @ [''-''])) tabs
      | Some n \<Rightarrow>
          (case best_string_loop n guitar_tuning (None, 100) of
             (best_string, min_fret) \<Rightarrow>
               map (\<lambda>(string, syms).
                      (string, syms @ [if Some string = best_string
                                       then str_int min_fret else ''-'']))
                   tabs))"

fun process_notes :: "f64 list \<Rightarrow> tab_lines \<Rightarrow> tab_lines" where
  "process_notes [] tabs = tabs"
| "process_notes (note # notes) tabs = process_notes notes (process_note note tabs)"

subsection \<open>generate\_tabs: rendering\<close>

definition chunk_size :: nat where
  "chunk_size = 60"

text \<open>\<^verbatim>\<open>range(i, stop, k)\<close> for a positive \<open>k\<close>.\<close>

function range_from :: "nat \<Rightarrow> nat \<Rightarrow> nat \<Rightarrow> nat list" where
  "range_from i stop k =
     (if i < stop \<and> 0 < k then i # range_from (i + k) stop k else [])"
  by pat_completeness auto
termination
  by (relation "measure (\<lambda>(i, stop, k). stop - i)") auto

declare range_from.simps [simp del]

text \<open>\<^verbatim>\<open>sep.join(xs)\<close>\<close>

fun join :: "string \<Rightarrow> string list \<Rightarrow> string" where
  "join sep [] = []"
| "join sep [x] = x"
| "join sep (x # y # ys) = x @ sep @ join sep (y # ys)"

text \<open>\<^verbatim>\<open>xs[i:j]\<close> for \<open>0 \<le> i \<le> j\<close>.\<close>

definition slice :: "'a list \<Rightarrow> nat \<Rightarrow> nat \<Rightarrow> 'a list" where
  "slice xs i j = take (j - i) (drop i xs)"

text \<open>Running a fallible function over a list, stopping at the first error.\<close>

fun map_result :: "('a \<Rightarrow> error + 'b) \<Rightarrow> 'a list \<Rightarrow> error + 'b list" where
  "map_result f [] = Inr []"
| "map_result f (x # xs) =
     (case f x of
        Inl e \<Rightarrow> Inl e
      | Inr y \<Rightarrow> (case map_result f xs of Inl e \<Rightarrow> Inl e | Inr ys \<Rightarrow> Inr (y # ys)))"

definition display_order :: "string list" where
  "display_order = [''e'', ''B'', ''G'', ''D'', ''A'', ''E'']"

text \<open>The segments of one block, one per string in display order:
  \<^verbatim>\<open>tab_lines[string_name][i:i+chunk_size]\<close>.\<close>

definition block_segments :: "tab_lines \<Rightarrow> nat \<Rightarrow> error + string list list" where
  "block_segments tabs i =
     map_result
       (\<lambda>string_name.
          case dict_get tabs string_name of
            Inl e \<Rightarrow> Inl e
          | Inr line \<Rightarrow> Inr (slice line i (i + chunk_size)))
       display_order"

text \<open>The text of one block: its lines \<^verbatim>\<open>f"{string_name}|{line_str}|"\<close>, joined by
  newlines.\<close>

definition block_text :: "string list list \<Rightarrow> string" where
  "block_text segments =
     join NL (map (\<lambda>(string_name, segment). string_name @ ''|'' @ join [] segment @ ''|'')
                  (zip display_order segments))"

text \<open>The blocks, in the order of the loop over \<^verbatim>\<open>range(0, total_length, chunk_size)\<close>.\<close>

definition render_blocks :: "tab_lines \<Rightarrow> error + string list" where
  "render_blocks tabs =
     (case dict_get tabs ''E'' of
        Inl e \<Rightarrow> Inl e
      | Inr line \<Rightarrow>
          map_result
            (\<lambda>i. case block_segments tabs i of
                    Inl e \<Rightarrow> Inl e
                  | Inr segments \<Rightarrow> Inr (block_text segments))
            (range_from 0 (length line) chunk_size))"

text \<open>\<^verbatim>\<open>final_output\<close>: after every block the element \<^verbatim>\<open>"\n"\<close>; the result joins the
  elements by newlines.\<close>

definition final_output :: "string list \<Rightarrow> string list" where
  "final_output blocks = concat (map (\<lambda>b. [b, NL]) blocks)"

definition render :: "tab_lines \<Rightarrow> error + string" where
  "render tabs =
     (case render_blocks tabs of
        Inl e \<Rightarrow> Inl e
      | Inr blocks \<Rightarrow> Inr (join NL (final_output blocks)))"

subsection \<open>generate\_tabs\<close>

text \<open>A note of minus infinity is not NaN, so it reaches the loop over the strings, where
  \<^verbatim>\<open>int(round(midi_note - string_tune))\<close> raises OverflowError. Nothing is returned then:
  the run ends with that error at the first decimated note that is infinite.\<close>

definition note_of :: "np_float \<Rightarrow> error + f64" where
  "note_of v = (case v of NegInf \<Rightarrow> Inl OverflowError | Val note \<Rightarrow> Inr note)"

text \<open>From the pitch tracker's arrays to the notes that the loop runs over, to the tab
  lines, and to the text.\<close>

definition processed_notes :: "f64 list \<Rightarrow> bool list \<Rightarrow> error + f64 list" where
  "processed_notes f0 voiced_flag =
     (case mask_unvoiced f0 voiced_flag of
        Inl e \<Rightarrow> Inl e
      | Inr masked \<Rightarrow> map_result note_of (stride step (hz_to_midi masked)))"

definition generate_tabs :: "f64 list \<Rightarrow> bool list \<Rightarrow> error + string" where
  "generate_tabs f0 voiced_flag =
     (case processed_notes f0 voiced_flag of
        Inl e \<Rightarrow> Inl e
      | Inr notes \<Rightarrow> render (process_notes notes empty_tab_lines))"

subsection \<open>The FretAssignment of a note\<close>

text \<open>What the loop body decides for one note, read off the state
  \<^verbatim>\<open>(best_string, min_fret)\<close> after the loop over the strings: \<open>None\<close> is SILENT (the
  note is NaN, or \<^verbatim>\<open>best_string\<close> is still \<^verbatim>\<open>None\<close>), \<open>Some (s, f)\<close> is fret \<open>f\<close> on
  string \<open>s\<close>.\<close>

definition fret_assignment :: "f64 \<Rightarrow> (string \<times> int) option" where
  "fret_assignment note =
     (case note of
        None \<Rightarrow> None
      | Some n \<Rightarrow>
          (case best_string_loop n guitar_tuning (None, 100) of
             (None, min_fret) \<Rightarrow> None
           | (Some best_string, min_fret) \<Rightarrow> Some (best_string, min_fret)))"

text \<open>The symbol an assignment puts on the line of a string.\<close>

definition symbol :: "(string \<times> int) option \<Rightarrow> string \<Rightarrow> string" where
  "symbol a string =
     (case a of
        None \<Rightarrow> ''-''
      | Some (best_string, min_fret) \<Rightarrow>
          if string = best_string then str_int min_fret else ''-'')"

subsection \<open>The pipeline in the order of the specification\<close>

text \<open>The specification maps every frame to a FretAssignment first and decimates the
  assignments in the renderer; \<^verbatim>\<open>generate_tabs\<close> decimates the notes first. The pipeline
  in the specification's order, for comparison with \<open>generate_tabs\<close>:\<close>

definition write_assignment :: "(string \<times> int) option \<Rightarrow> tab_lines \<Rightarrow> tab_lines" where
  "write_assignment a tabs = map (\<lambda>(string, syms). (string, syms @ [symbol a string])) tabs"

fun write_assignments :: "(string \<times> int) option list \<Rightarrow> tab_lines \<Rightarrow> tab_lines" where
  "write_assignments [] tabs = tabs"
| "write_assignments (a # as) tabs = write_assignments as (write_assignment a tabs)"




section \<open>Decimation\<close>

lemma stride_arith:
  assumes "0 < k"
  shows "Suc ((n - (k - 1) + k - 1) div k) = (Suc n + k - 1) div k"
proof (cases "n < k - 1")
  case True
  then have "n - (k - 1) + k - 1 = k - 1" "Suc n + k - 1 = n + k" by arith+
  moreover have "(k - 1) div k = 0" "(n + k) div k = 1" using assms True by auto
  ultimately show ?thesis by (simp only:)
next
  case False
  then have "n - (k - 1) + k - 1 = n" "Suc n + k - 1 = n + k" using assms by arith+
  moreover have "(n + k) div k = Suc (n div k)" using assms by simp
  ultimately show ?thesis by (simp only:)
qed

lemma stride_length: "0 < k \<Longrightarrow> length (stride k xs) = (length xs + k - 1) div k"
proof (induction k xs rule: stride.induct)
  case (1 k)
  then show ?case by simp
next
  case (2 k x xs)
  from 2 have "length (stride k (drop (k - 1) xs)) = (length (drop (k - 1) xs) + k - 1) div k"
    by blast
  then have "length (stride k (x # xs)) = Suc ((length xs - (k - 1) + k - 1) div k)"
    by (simp only: stride.simps list.size length_drop)
  also have "\<dots> = (Suc (length xs) + k - 1) div k"
    using 2(2) by (rule stride_arith)
  finally show ?case by (simp only: length_Cons)
qed

lemma stride_nth: "0 < k \<Longrightarrow> i < length (stride k xs) \<Longrightarrow> stride k xs ! i = xs ! (i * k)"
proof (induction k xs arbitrary: i rule: stride.induct)
  case (1 k)
  then show ?case by simp
next
  case (2 k x xs)
  show ?case
  proof (cases i)
    case 0
    then show ?thesis by simp
  next
    case (Suc j)
    have j: "j < length (stride k (drop (k - 1) xs))" using 2(3) Suc by simp
    with 2(1)[OF 2(2)] have ih: "stride k (drop (k - 1) xs) ! j = drop (k - 1) xs ! (j * k)"
      by blast
    from j have "drop (k - 1) xs \<noteq> []" by auto
    then have "k - 1 \<le> length xs" by simp
    then have "drop (k - 1) xs ! (j * k) = xs ! (k - 1 + j * k)" by simp
    moreover have "Suc j * k = Suc (k - 1 + j * k)" using 2(2) by simp
    ultimately show ?thesis using ih Suc by (simp only: stride.simps nth_Cons_Suc)
  qed
qed

lemma ceil_div:
  assumes "0 < k"
  shows "nat \<lceil>real n / real k\<rceil> = (n + k - 1) div k"
proof -
  define q where "q = (n + k - 1) div k"
  have h1: "q * k \<le> n + k - 1" unfolding q_def by simp
  have h2: "n + k - 1 < k + q * k" unfolding q_def using assms by (rule dividend_less_div_times)
  from h1 assms have "q * k < n + k" by arith
  then have "real (q * k) < real (n + k)" by (simp only: of_nat_less_iff)
  then have a: "(real q - 1) * real k < real n" by (simp add: algebra_simps)
  from h2 assms have "n \<le> q * k" by arith
  then have "real n \<le> real (q * k)" by (simp only: of_nat_le_iff)
  then have b: "real n \<le> real q * real k" by simp
  have k: "0 < real k" using assms by simp
  from a k have "real_of_int (int q) - 1 < real n / real k"
    by (simp add: pos_less_divide_eq)
  moreover from b k have "real n / real k \<le> real_of_int (int q)"
    by (simp add: pos_divide_le_eq)
  ultimately have "\<lceil>real n / real k\<rceil> = int q" by (rule ceiling_unique)
  then show ?thesis unfolding q_def by simp
qed

text \<open>
  C6. Decimation by a factor \<open>D\<close> (the slice \<^verbatim>\<open>midi_notes[::step]\<close>, with \<open>step = 5\<close> in
  the code) is a strict stride sample: of an input of length \<open>N\<close> it keeps
  \<open>\<lceil>N / D\<rceil>\<close> elements, and the element \<open>i\<close> it keeps is the element \<open>i * D\<close> of the
  input, unchanged.
\<close>

theorem decimation_is_stride_sample:
  "0 < D \<Longrightarrow>
   length (stride D xs) = nat \<lceil>real (length xs) / real D\<rceil> \<and>
   (\<forall>i < length (stride D xs). stride D xs ! i = xs ! (i * D))"
  by (simp add: stride_length stride_nth ceil_div)

theorem decimation_is_stride_sample_witness:
  "0 < step \<and>
   stride step [10, 11, 12, 13, 14, 15, 16, 17, 18, 19, 20 :: int] = [10, 15, 20] \<and>
   length (stride step [10, 11, 12, 13, 14, 15, 16, 17, 18, 19, 20 :: int]) =
     nat \<lceil>real (length [10, 11, 12, 13, 14, 15, 16, 17, 18, 19, 20 :: int]) / real step\<rceil> \<and>
   stride step [10, 11, 12, 13, 14, 15, 16, 17, 18, 19, 20 :: int] ! 2 =
     [10, 11, 12, 13, 14, 15, 16, 17, 18, 19, 20] ! (2 * step)"
  using decimation_is_stride_sample [of step "[10, 11, 12, 13, 14, 15, 16, 17, 18, 19, 20 :: int]"]
  by (simp add: step_def)

section \<open>Rounding\<close>

lemma py_round_nearest: "\<bar>x - of_int (py_round x)\<bar> \<le> 1 / 2"
  unfolding py_round_def Let_def by auto

lemma py_round_of_int: "py_round (of_int z) = z"
  unfolding py_round_def Let_def by simp

section \<open>float64 rounding\<close>

lemma py_round_bounds: "\<lfloor>x\<rfloor> \<le> py_round x \<and> py_round x \<le> \<lfloor>x\<rfloor> + 1"
  unfolding py_round_def Let_def by auto

lemma py_round_mono: "x \<le> y \<Longrightarrow> py_round x \<le> py_round y"
proof -
  assume xy: "x \<le> y"
  then have fm: "\<lfloor>x\<rfloor> \<le> \<lfloor>y\<rfloor>" by (rule floor_mono)
  show ?thesis
  proof (cases "\<lfloor>x\<rfloor> < \<lfloor>y\<rfloor>")
    case True
    with py_round_bounds[of x] py_round_bounds[of y] show ?thesis by linarith
  next
    case False
    with fm have eq: "\<lfloor>x\<rfloor> = \<lfloor>y\<rfloor>" by simp
    with xy show ?thesis unfolding py_round_def Let_def by auto
  qed
qed

lemma py_round_neg: "py_round (- x) = - py_round x"
proof (cases "of_int \<lfloor>x\<rfloor> = x")
  case True
  then obtain z where z: "x = of_int z" by metis
  have "py_round (- x) = py_round (of_int (- z))" by (simp add: z)
  also have "\<dots> = - z" by (rule py_round_of_int)
  finally show ?thesis by (simp add: z py_round_of_int)
next
  case False
  then have "\<lceil>x\<rceil> = \<lfloor>x\<rfloor> + 1" by (simp add: ceiling_altdef)
  then have f: "\<lfloor>- x\<rfloor> = - \<lfloor>x\<rfloor> - 1" by (simp add: floor_minus)
  have d: "x - of_int \<lfloor>x\<rfloor> \<noteq> 0" using False by simp
  show ?thesis
    unfolding py_round_def Let_def f using d by (auto simp add: algebra_simps)
qed

lemma powr_powi: "2 powr (of_int n) = (2 :: real) powi n"
  by (simp add: powr_real_of_int')

lemma floor_log_bounds:
  assumes "0 < x"
  shows "2 powi \<lfloor>log 2 x\<rfloor> \<le> x" and "x < 2 powi (\<lfloor>log 2 x\<rfloor> + 1)"
proof -
  have "of_int \<lfloor>log 2 x\<rfloor> \<le> log 2 x" by (rule of_int_floor_le)
  with le_log_iff[of 2 x "of_int \<lfloor>log 2 x\<rfloor>"] assms
  have "2 powr (of_int \<lfloor>log 2 x\<rfloor>) \<le> x" by simp
  then show "2 powi \<lfloor>log 2 x\<rfloor> \<le> x" by (simp only: powr_powi)
  have "log 2 x < of_int (\<lfloor>log 2 x\<rfloor> + 1)" by linarith
  with log_less_iff[of 2 x "of_int (\<lfloor>log 2 x\<rfloor> + 1)"] assms
  have "x < 2 powr (of_int (\<lfloor>log 2 x\<rfloor> + 1))" by simp
  then show "x < 2 powi (\<lfloor>log 2 x\<rfloor> + 1)" by (simp only: powr_powi)
qed

lemma exponent_ge: "- 1022 \<le> exponent x"
  by (simp add: exponent_def)

lemma exponent_upper:
  assumes "x \<noteq> 0"
  shows "\<bar>x\<bar> < 2 powi (exponent x + 1)"
proof -
  have "\<bar>x\<bar> < 2 powi (\<lfloor>log 2 \<bar>x\<bar>\<rfloor> + 1)" using assms by (simp add: floor_log_bounds)
  also have "\<dots> \<le> 2 powi (exponent x + 1)"
    by (rule power_int_increasing) (simp_all add: exponent_def)
  finally show ?thesis .
qed

lemma exponent_lower:
  assumes "x \<noteq> 0" and "- 1022 < exponent x"
  shows "2 powi (exponent x) \<le> \<bar>x\<bar>"
proof -
  from assms(2) have "exponent x = \<lfloor>log 2 \<bar>x\<bar>\<rfloor>" by (simp add: exponent_def max_def split: if_splits)
  then show ?thesis using assms(1) floor_log_bounds(1)[of "\<bar>x\<bar>"] by simp
qed

lemma floor_log_unique:
  assumes "2 powi e \<le> x" and "x < 2 powi (e + 1)"
  shows "\<lfloor>log 2 x\<rfloor> = e"
proof (rule floor_unique)
  have pos: "0 < x" using assms(1) zero_less_power_int[of "2 :: real" e] by linarith
  from assms(1) have "2 powr (of_int e) \<le> x" by (simp only: powr_powi)
  with le_log_iff[of 2 x "of_int e"] pos show "of_int e \<le> log 2 x" by simp
  from assms(2) have "x < 2 powr (of_int (e + 1))" by (simp only: powr_powi)
  with log_less_iff[of 2 x "of_int (e + 1)"] pos have "log 2 x < of_int (e + 1)" by simp
  then show "log 2 x < of_int e + 1" by simp
qed

lemma exponent_unique:
  assumes "2 powi e \<le> \<bar>x\<bar>" and "\<bar>x\<bar> < 2 powi (e + 1)" and "- 1022 \<le> e"
  shows "exponent x = e"
  using floor_log_unique[OF assms(1,2)] assms(3) by (simp add: exponent_def)

lemma exponent_subnormal:
  assumes "x \<noteq> 0" and "\<bar>x\<bar> < 2 powi (- 1022)"
  shows "exponent x = - 1022"
proof -
  have "\<lfloor>log 2 \<bar>x\<bar>\<rfloor> < - 1022"
  proof (rule ccontr)
    assume "\<not> \<lfloor>log 2 \<bar>x\<bar>\<rfloor> < - 1022"
    then have "(2 :: real) powi (- 1022) \<le> 2 powi \<lfloor>log 2 \<bar>x\<bar>\<rfloor>"
      by (intro power_int_increasing) simp_all
    also have "\<dots> \<le> \<bar>x\<bar>" using assms(1) by (simp add: floor_log_bounds)
    finally show False using assms(2) by simp
  qed
  then show ?thesis by (simp add: exponent_def)
qed

lemma exponent_minus: "exponent (- x) = exponent x"
  by (simp add: exponent_def)

lemma exponent_mono: "0 < x \<Longrightarrow> x \<le> y \<Longrightarrow> exponent x \<le> exponent y"
proof -
  assume "0 < x" "x \<le> y"
  then have "log 2 \<bar>x\<bar> \<le> log 2 \<bar>y\<bar>" by simp
  then have "\<lfloor>log 2 \<bar>x\<bar>\<rfloor> \<le> \<lfloor>log 2 \<bar>y\<bar>\<rfloor>" by (rule floor_mono)
  then show ?thesis by (simp add: exponent_def)
qed

lemma fl_minus: "fl (- x) = - fl x"
  by (simp add: fl_def exponent_minus py_round_neg)

lemma fl_nonneg: "0 \<le> x \<Longrightarrow> 0 \<le> fl x"
proof -
  assume x: "0 \<le> x"
  have "0 \<le> x * 2 powi (52 - exponent x)" using x by simp
  then have "py_round 0 \<le> py_round (x * 2 powi (52 - exponent x))" by (rule py_round_mono)
  moreover have "py_round 0 = 0" using py_round_of_int[of 0] by simp
  ultimately show ?thesis by (simp add: fl_def)
qed

lemma two_powi_add: "(2 :: real) powi (a + b) = 2 powi a * 2 powi b"
  by (simp add: power_int_add)

lemma fl_upper:
  assumes "0 < x"
  shows "fl x \<le> 2 powi (exponent x + 1)"
proof -
  let ?e = "exponent x"
  have "x < 2 powi (?e + 1)" using exponent_upper[of x] assms by simp
  then have "x * 2 powi (52 - ?e) \<le> 2 powi (?e + 1) * 2 powi (52 - ?e)" by simp
  also have "\<dots> = 2 powi 53" by (simp add: two_powi_add[symmetric])
  also have "\<dots> = of_int (2 ^ 53)" by simp
  finally have "py_round (x * 2 powi (52 - ?e)) \<le> py_round (of_int (2 ^ 53))"
    by (rule py_round_mono)
  then have "py_round (x * 2 powi (52 - ?e)) \<le> 2 ^ 53" by (simp only: py_round_of_int)
  then have "real_of_int (py_round (x * 2 powi (52 - ?e))) \<le> 2 powi 53" by simp
  then have "real_of_int (py_round (x * 2 powi (52 - ?e))) * 2 powi (?e - 52) \<le> 2 powi 53 * 2 powi (?e - 52)"
    by (intro mult_right_mono) simp_all
  also have "\<dots> = 2 powi (53 + (?e - 52))" by (simp only: two_powi_add)
  also have "53 + (?e - 52) = ?e + 1" by simp
  finally show ?thesis using assms by (simp add: fl_def)
qed

lemma fl_lower:
  assumes "0 < x" and "- 1022 < exponent x"
  shows "2 powi (exponent x) \<le> fl x"
proof -
  let ?e = "exponent x"
  have "2 powi ?e \<le> x" using exponent_lower[of x] assms by simp
  then have "2 powi ?e * 2 powi (52 - ?e) \<le> x * 2 powi (52 - ?e)" by simp
  moreover have "2 powi ?e * 2 powi (52 - ?e) = (of_int (2 ^ 52) :: real)"
    by (simp add: two_powi_add[symmetric])
  ultimately have "py_round (of_int (2 ^ 52)) \<le> py_round (x * 2 powi (52 - ?e))"
    by (intro py_round_mono) simp
  then have "2 ^ 52 \<le> py_round (x * 2 powi (52 - ?e))" by (simp only: py_round_of_int)
  then have "2 powi 52 \<le> real_of_int (py_round (x * 2 powi (52 - ?e)))" by simp
  then have "2 powi 52 * 2 powi (?e - 52) \<le> real_of_int (py_round (x * 2 powi (52 - ?e))) * 2 powi (?e - 52)"
    by (intro mult_right_mono) simp_all
  moreover have "(2 :: real) powi 52 * 2 powi (?e - 52) = 2 powi (52 + (?e - 52))"
    by (simp only: two_powi_add)
  moreover have "52 + (?e - 52) = ?e" by simp
  ultimately have "2 powi ?e \<le> real_of_int (py_round (x * 2 powi (52 - ?e))) * 2 powi (?e - 52)"
    by (simp only:)
  then show ?thesis using assms by (simp add: fl_def)
qed

lemma fl_mono_pos:
  assumes "0 < x" and "x \<le> y"
  shows "fl x \<le> fl y"
proof (cases "exponent x = exponent y")
  case True
  have "x * 2 powi (52 - exponent y) \<le> y * 2 powi (52 - exponent y)" using assms by simp
  then have "py_round (x * 2 powi (52 - exponent y)) \<le> py_round (y * 2 powi (52 - exponent y))"
    by (rule py_round_mono)
  then have "real_of_int (py_round (x * 2 powi (52 - exponent y))) * 2 powi (exponent y - 52)
      \<le> real_of_int (py_round (y * 2 powi (52 - exponent y))) * 2 powi (exponent y - 52)"
    by (intro mult_right_mono) simp_all
  then show ?thesis using assms True by (simp add: fl_def)
next
  case False
  with exponent_mono[OF assms] have lt: "exponent x < exponent y" by simp
  have y: "0 < y" using assms by simp
  have "fl x \<le> 2 powi (exponent x + 1)" using assms(1) by (rule fl_upper)
  also have "\<dots> \<le> 2 powi (exponent y)" using lt by (intro power_int_increasing) simp_all
  also have "\<dots> \<le> fl y" using y lt exponent_ge[of x] by (intro fl_lower) simp_all
  finally show ?thesis .
qed

lemma fl_zero: "fl 0 = 0"
  by (simp add: fl_def)

lemma fl_mono:
  assumes "x \<le> y"
  shows "fl x \<le> fl y"
proof -
  consider "0 < x" | "x \<le> 0" "0 \<le> y" | "y < 0" using assms by linarith
  then show ?thesis
  proof cases
    case 1
    then show ?thesis using assms by (rule fl_mono_pos)
  next
    case 2
    have "fl x \<le> 0" using fl_nonneg[of "- x"] 2(1) by (simp add: fl_minus)
    also have "0 \<le> fl y" using 2(2) by (rule fl_nonneg)
    finally show ?thesis .
  next
    case 3
    then have "fl (- y) \<le> fl (- x)" using assms by (intro fl_mono_pos) simp_all
    then show ?thesis by (simp add: fl_minus)
  qed
qed

lemma fl_eval:
  assumes "2 powi e \<le> \<bar>x\<bar>" and "\<bar>x\<bar> < 2 powi (e + 1)" and "- 1022 \<le> e"
  shows "fl x = of_int (py_round (x * 2 powi (52 - e))) * 2 powi (e - 52)"
proof -
  have pos: "(0 :: real) < 2 powi e" by simp
  have "x \<noteq> 0"
  proof
    assume "x = 0"
    with assms(1) have "(2 :: real) powi e \<le> 0" by simp
    with pos show False by linarith
  qed
  moreover have "exponent x = e" using assms by (rule exponent_unique)
  ultimately show ?thesis by (simp add: fl_def)
qed

lemma fl_eval_subnormal:
  assumes "x \<noteq> 0" and "\<bar>x\<bar> < 2 powi (- 1022)"
  shows "fl x = of_int (py_round (x * 2 powi 1074)) * 2 powi (- 1074)"
  using assms exponent_subnormal[OF assms] by (simp add: fl_def)

lemma py_round_near:
  "0 \<le> t \<Longrightarrow> t < 1 / 2 \<Longrightarrow> py_round (of_int n + t) = n"
proof -
  assume t: "0 \<le> t" "t < 1 / 2"
  then have "\<lfloor>of_int n + t\<rfloor> = n" by (intro floor_unique) simp_all
  then show ?thesis using t unfolding py_round_def Let_def by simp
qed

lemma fl_of_int:
  assumes "\<bar>m\<bar> < 2 ^ 53"
  shows "fl (of_int m) = of_int m"
proof (cases "m = 0")
  case True
  then show ?thesis by (simp add: fl_def)
next
  case False
  let ?x = "real_of_int m"
  let ?e = "exponent ?x"
  have x: "?x \<noteq> 0" using False by simp
  have "1 \<le> \<bar>?x\<bar>" using False by (simp flip: of_int_abs)
  then have "0 \<le> log 2 \<bar>?x\<bar>" by simp
  then have "0 \<le> \<lfloor>log 2 \<bar>?x\<bar>\<rfloor>" by simp
  then have e0: "0 \<le> ?e" and ee: "?e = \<lfloor>log 2 \<bar>?x\<bar>\<rfloor>" by (simp_all add: exponent_def)
  have "\<bar>?x\<bar> < 2 powi 53" using assms by (simp flip: of_int_abs)
  moreover have "2 powi ?e \<le> \<bar>?x\<bar>" using floor_log_bounds(1)[of "\<bar>?x\<bar>"] x ee by simp
  ultimately have lt: "(2 :: real) powi ?e < 2 powi 53" by linarith
  have e52: "?e \<le> 52"
  proof (rule ccontr)
    assume "\<not> ?e \<le> 52"
    then have "(2 :: real) powi 53 \<le> 2 powi ?e" by (intro power_int_increasing) simp_all
    with lt show False by linarith
  qed
  have p: "(2 :: real) powi (52 - ?e) = of_int (2 ^ nat (52 - ?e))"
    using e52 by (simp add: power_int_def)
  have "?x * 2 powi (52 - ?e) = of_int (m * 2 ^ nat (52 - ?e))" by (simp add: p)
  then have "py_round (?x * 2 powi (52 - ?e)) = m * 2 ^ nat (52 - ?e)"
    by (simp only: py_round_of_int)
  then have "fl ?x = of_int (m * 2 ^ nat (52 - ?e)) * 2 powi (?e - 52)" using x by (simp add: fl_def)
  also have "\<dots> = ?x * (2 powi (52 - ?e) * 2 powi (?e - 52))" by (simp add: p)
  also have "2 powi (52 - ?e) * 2 powi (?e - 52) = (2 :: real) powi ((52 - ?e) + (?e - 52))"
    by (simp only: two_powi_add)
  finally show ?thesis by simp
qed

lemma fl_numeral [simp]: "fl 1 = 1" "fl 69 = 69" "fl 33 = 33" "fl 57 = 57"
  "fl (- 3) = - 3" "fl (- 36) = - 36" "fl (- 1) = - 1" "fl (- 12) = - 12"
  using fl_of_int[of 1] fl_of_int[of 69] fl_of_int[of 33] fl_of_int[of 57]
    fl_of_int[of "- 3"] fl_of_int[of "- 36"] fl_of_int[of "- 1"] fl_of_int[of "- 12"]
  by simp_all


lemma fl_half: "fl (1 / 2) = 1 / 2"
  by (subst fl_eval[of "- 1"]) (simp_all add: py_round_def Let_def)

lemma fl_quotient_next_440: "fl ((440 + 1 / 2 ^ 44) / 440) = 1 + 1 / 2 ^ 52"
  by (subst fl_eval[of 0]) (simp_all add: py_round_def Let_def)

lemma fl_small: "fl (1 / 2 ^ 51) = 1 / 2 ^ 51"
  by (subst fl_eval[of "- 51"]) (simp_all add: py_round_def Let_def)

lemma fl_twelve_small: "fl (12 / 2 ^ 51) = 12 / 2 ^ 51"
  by (subst fl_eval[of "- 48"]) (simp_all add: py_round_def Let_def)

lemma fl_above_69: "fl (12 / 2 ^ 51 + 69) = 69"
  by (subst fl_eval[of 6]) (simp_all add: py_round_def Let_def)

lemma ln2_lower: "1 / 2 \<le> ln (2 :: real)"
proof -
  have "ln (1 - 1 / 2 :: real) \<le> - (1 / 2)" by (rule ln_one_minus_pos_upper_bound) simp_all
  moreover have "ln (1 - 1 / 2 :: real) = - ln 2" by (simp add: ln_div)
  ultimately show ?thesis by simp
qed

lemma log2_small:
  assumes "0 \<le> x"
  shows "0 \<le> log 2 (1 + x)" and "log 2 (1 + x) \<le> 2 * x"
proof -
  show "0 \<le> log 2 (1 + x)" using assms by simp
  have a: "ln (1 + x) \<le> x" using assms by (rule ln_add_one_self_le_self)
  have "x * 1 \<le> x * (2 * ln 2)" using assms ln2_lower by (intro mult_left_mono) simp_all
  with a have "ln (1 + x) \<le> 2 * x * ln 2" by simp
  moreover have "0 < ln (2 :: real)" by simp
  ultimately have "ln (1 + x) / ln 2 \<le> 2 * x" by (simp only: pos_divide_le_eq)
  then show "log 2 (1 + x) \<le> 2 * x" by (simp only: log_def)
qed

lemma semitone_next_440:
  "fl (fl (12 * fl (log 2 (1 + 1 / 2 ^ 52))) + 69) = 69"
proof -
  let ?l = "fl (log 2 (1 + 1 / 2 ^ 52))"
  have "log 2 (1 + 1 / 2 ^ 52) \<le> 2 * (1 / 2 ^ 52)" by (rule log2_small) simp
  also have "\<dots> = 1 / 2 ^ 51" by simp
  finally have up: "log 2 (1 + 1 / 2 ^ 52) \<le> 1 / 2 ^ 51" .
  have "0 \<le> log 2 (1 + 1 / 2 ^ 52)" by (rule log2_small) simp
  then have l0: "0 \<le> ?l" by (rule fl_nonneg)
  have "?l \<le> fl (1 / 2 ^ 51)" using up by (rule fl_mono)
  then have l1: "?l \<le> 1 / 2 ^ 51" by (simp only: fl_small)
  let ?m = "fl (12 * ?l)"
  have "0 \<le> 12 * ?l" using l0 by simp
  then have m0: "0 \<le> ?m" by (rule fl_nonneg)
  have "12 * ?l \<le> 12 * (1 / 2 ^ 51)" using l1 by (rule mult_left_mono) simp
  then have "12 * ?l \<le> 12 / 2 ^ 51" by simp
  then have "?m \<le> fl (12 / 2 ^ 51)" by (rule fl_mono)
  then have m1: "?m \<le> 12 / 2 ^ 51" by (simp only: fl_twelve_small)
  have "69 \<le> ?m + 69" using m0 by simp
  then have "fl 69 \<le> fl (?m + 69)" by (rule fl_mono)
  then have lo: "69 \<le> fl (?m + 69)" by (simp only: fl_numeral)
  have "?m + 69 \<le> 12 / 2 ^ 51 + 69" using m1 by simp
  then have "fl (?m + 69) \<le> fl (12 / 2 ^ 51 + 69)" by (rule fl_mono)
  then have "fl (?m + 69) \<le> 69" by (simp only: fl_above_69)
  with lo show ?thesis by linarith
qed

lemma fl_underflow: "fl (2 powi (- 1074) / 440) = 0"
proof -
  define a :: real where "a = 2 powi (- 1074)"
  have a: "0 < a" unfolding a_def by (rule zero_less_power_int) simp
  have pos: "0 < a / 440" using a by simp
  have "a / 440 \<le> a" using a by (simp add: field_simps)
  also have "a < 2 powi (- 1022)" unfolding a_def
    by (rule power_int_strict_increasing) simp_all
  finally have small: "\<bar>a / 440\<bar> < 2 powi (- 1022)" using pos by (simp only: abs_of_pos)
  have "a * 2 powi 1074 = 2 powi (- 1074 + 1074)" unfolding a_def by (simp only: two_powi_add)
  also have "\<dots> = 1" by simp
  finally have one: "a * 2 powi 1074 = 1" .
  have "a / 440 * 2 powi 1074 = (a * 2 powi 1074) / 440" by (simp only: times_divide_eq_left)
  then have sc: "a / 440 * 2 powi 1074 = 1 / 440" by (simp only: one)
  have "py_round (1 / 440) = 0" by (simp add: py_round_def Let_def)
  then have "py_round (a / 440 * 2 powi 1074) = 0" by (simp only: sc)
  moreover have "fl (a / 440) = of_int (py_round (a / 440 * 2 powi 1074)) * 2 powi (- 1074)"
    using pos small by (intro fl_eval_subnormal) simp_all
  ultimately have "fl (a / 440) = 0" by (simp only: of_int_0 mult_zero_left)
  then show ?thesis unfolding a_def .
qed

section \<open>The fretboard mapper\<close>

lemma best_string_loop_cases:
  "best_string_loop note ts (b, m) = (b', m') \<Longrightarrow>
     (b' = b \<and> m' = m \<and>
        (\<forall>(s, p) \<in> set ts. midi_to_fret note p = - 1 \<or> m \<le> midi_to_fret note p))
   \<or> (\<exists>pre s p post. ts = pre @ (s, p) # post \<and> b' = Some s \<and> m' = midi_to_fret note p \<and>
          midi_to_fret note p \<noteq> - 1 \<and> midi_to_fret note p < m \<and>
          (\<forall>(s', p') \<in> set pre. midi_to_fret note p' = - 1 \<or> midi_to_fret note p < midi_to_fret note p') \<and>
          (\<forall>(s', p') \<in> set post. midi_to_fret note p' = - 1 \<or> midi_to_fret note p \<le> midi_to_fret note p'))"
proof (induction ts arbitrary: b m)
  case Nil
  then show ?case by simp
next
  case (Cons a ts)
  obtain n q where a: "a = (n, q)" by (cases a)
  let ?f = "midi_to_fret note"
  show ?case
  proof (cases "?f q \<noteq> - 1 \<and> ?f q < m")
    case True
    with Cons.prems a have run: "best_string_loop note ts (Some n, ?f q) = (b', m')"
      by simp
    from Cons.IH[OF run] show ?thesis
    proof
      assume h: "b' = Some n \<and> m' = ?f q \<and> (\<forall>(s, p) \<in> set ts. ?f p = - 1 \<or> ?f q \<le> ?f p)"
      have "a # ts = [] @ (n, q) # ts \<and> b' = Some n \<and> m' = ?f q \<and>
          ?f q \<noteq> - 1 \<and> ?f q < m \<and>
          (\<forall>(s', p') \<in> set []. ?f p' = - 1 \<or> ?f q < ?f p') \<and>
          (\<forall>(s', p') \<in> set ts. ?f p' = - 1 \<or> ?f q \<le> ?f p')"
        using a h True by simp
      then show ?thesis by (intro disjI2 exI)
    next
      assume "\<exists>pre s p post. ts = pre @ (s, p) # post \<and> b' = Some s \<and> m' = ?f p \<and>
          ?f p \<noteq> - 1 \<and> ?f p < ?f q \<and>
          (\<forall>(s', p') \<in> set pre. ?f p' = - 1 \<or> ?f p < ?f p') \<and>
          (\<forall>(s', p') \<in> set post. ?f p' = - 1 \<or> ?f p \<le> ?f p')"
      then obtain pre s p post where h: "ts = pre @ (s, p) # post" "b' = Some s" "m' = ?f p"
          "?f p \<noteq> - 1" "?f p < ?f q"
          "\<forall>(s', p') \<in> set pre. ?f p' = - 1 \<or> ?f p < ?f p'"
          "\<forall>(s', p') \<in> set post. ?f p' = - 1 \<or> ?f p \<le> ?f p'"
        by blast
      have "a # ts = (a # pre) @ (s, p) # post" using h(1) by simp
      moreover have "\<forall>(s', p') \<in> set (a # pre). ?f p' = - 1 \<or> ?f p < ?f p'"
        using h(5,6) a by simp
      moreover have "?f p < m" using h(5) True by simp
      ultimately have "a # ts = (a # pre) @ (s, p) # post \<and> b' = Some s \<and> m' = ?f p \<and>
          ?f p \<noteq> - 1 \<and> ?f p < m \<and>
          (\<forall>(s', p') \<in> set (a # pre). ?f p' = - 1 \<or> ?f p < ?f p') \<and>
          (\<forall>(s', p') \<in> set post. ?f p' = - 1 \<or> ?f p \<le> ?f p')"
        using h(2,3,4,7) by (intro conjI)
      then show ?thesis by (intro disjI2 exI)
    qed
  next
    case False
    with Cons.prems a have run: "best_string_loop note ts (b, m) = (b', m')"
      by auto
    from Cons.IH[OF run] show ?thesis
    proof
      assume h: "b' = b \<and> m' = m \<and> (\<forall>(s, p) \<in> set ts. ?f p = - 1 \<or> m \<le> ?f p)"
      have "?f q = - 1 \<or> m \<le> ?f q" using False by auto
      with h a have "b' = b \<and> m' = m \<and> (\<forall>(s, p) \<in> set (a # ts). ?f p = - 1 \<or> m \<le> ?f p)"
        by simp
      then show ?thesis by (rule disjI1)
    next
      assume "\<exists>pre s p post. ts = pre @ (s, p) # post \<and> b' = Some s \<and> m' = ?f p \<and>
          ?f p \<noteq> - 1 \<and> ?f p < m \<and>
          (\<forall>(s', p') \<in> set pre. ?f p' = - 1 \<or> ?f p < ?f p') \<and>
          (\<forall>(s', p') \<in> set post. ?f p' = - 1 \<or> ?f p \<le> ?f p')"
      then obtain pre s p post where h: "ts = pre @ (s, p) # post" "b' = Some s" "m' = ?f p"
          "?f p \<noteq> - 1" "?f p < m"
          "\<forall>(s', p') \<in> set pre. ?f p' = - 1 \<or> ?f p < ?f p'"
          "\<forall>(s', p') \<in> set post. ?f p' = - 1 \<or> ?f p \<le> ?f p'"
        by blast
      have "a # ts = (a # pre) @ (s, p) # post" using h(1) by simp
      moreover have "\<forall>(s', p') \<in> set (a # pre). ?f p' = - 1 \<or> ?f p < ?f p'"
        using h(5,6) a False by auto
      ultimately have "a # ts = (a # pre) @ (s, p) # post \<and> b' = Some s \<and> m' = ?f p \<and>
          ?f p \<noteq> - 1 \<and> ?f p < m \<and>
          (\<forall>(s', p') \<in> set (a # pre). ?f p' = - 1 \<or> ?f p < ?f p') \<and>
          (\<forall>(s', p') \<in> set post. ?f p' = - 1 \<or> ?f p \<le> ?f p')"
        using h(2,3,4,5,7) by (intro conjI)
      then show ?thesis by (intro disjI2 exI)
    qed
  qed
qed

lemma midi_to_fret_range: "midi_to_fret note p = - 1 \<or> (0 \<le> midi_to_fret note p \<and> midi_to_fret note p \<le> 24)"
  unfolding midi_to_fret_def Let_def by simp


lemma best_string_loop_start:
  assumes "best_string_loop note ts (None, 100) = (b, m)"
  shows "(b = None \<and> m = 100 \<and> (\<forall>(s, p) \<in> set ts. midi_to_fret note p = - 1))
   \<or> (\<exists>pre s p post. ts = pre @ (s, p) # post \<and> b = Some s \<and> m = midi_to_fret note p \<and>
          0 \<le> midi_to_fret note p \<and> midi_to_fret note p \<le> 24 \<and>
          (\<forall>(s', p') \<in> set pre. midi_to_fret note p' = - 1 \<or> midi_to_fret note p < midi_to_fret note p') \<and>
          (\<forall>(s', p') \<in> set post. midi_to_fret note p' = - 1 \<or> midi_to_fret note p \<le> midi_to_fret note p'))"
  using best_string_loop_cases[OF assms]
proof
  assume h: "b = None \<and> m = 100 \<and>
    (\<forall>(s, p)\<in>set ts. midi_to_fret note p = - 1 \<or> 100 \<le> midi_to_fret note p)"
  have "\<forall>(s, p)\<in>set ts. midi_to_fret note p = - 1"
  proof (clarify)
    fix s p assume "(s, p) \<in> set ts"
    with h have "midi_to_fret note p = - 1 \<or> 100 \<le> midi_to_fret note p" by auto
    with midi_to_fret_range[of "note" p] show "midi_to_fret note p = - 1" by arith
  qed
  with h show ?thesis by simp
next
  assume "\<exists>pre s p post. ts = pre @ (s, p) # post \<and> b = Some s \<and> m = midi_to_fret note p \<and>
          midi_to_fret note p \<noteq> - 1 \<and> midi_to_fret note p < 100 \<and>
          (\<forall>(s', p') \<in> set pre. midi_to_fret note p' = - 1 \<or> midi_to_fret note p < midi_to_fret note p') \<and>
          (\<forall>(s', p') \<in> set post. midi_to_fret note p' = - 1 \<or> midi_to_fret note p \<le> midi_to_fret note p')"
  then obtain pre s p post where h: "ts = pre @ (s, p) # post" "b = Some s" "m = midi_to_fret note p"
          "midi_to_fret note p \<noteq> - 1"
          "\<forall>(s', p') \<in> set pre. midi_to_fret note p' = - 1 \<or> midi_to_fret note p < midi_to_fret note p'"
          "\<forall>(s', p') \<in> set post. midi_to_fret note p' = - 1 \<or> midi_to_fret note p \<le> midi_to_fret note p'"
    by blast
  from h(4) midi_to_fret_range[of "note" p] have "0 \<le> midi_to_fret note p" "midi_to_fret note p \<le> 24"
    by arith+
  with h have "ts = pre @ (s, p) # post \<and> b = Some s \<and> m = midi_to_fret note p \<and>
          0 \<le> midi_to_fret note p \<and> midi_to_fret note p \<le> 24 \<and>
          (\<forall>(s', p') \<in> set pre. midi_to_fret note p' = - 1 \<or> midi_to_fret note p < midi_to_fret note p') \<and>
          (\<forall>(s', p') \<in> set post. midi_to_fret note p' = - 1 \<or> midi_to_fret note p \<le> midi_to_fret note p')"
    by (intro conjI)
  then show ?thesis by (intro disjI2 exI)
qed

lemma midi_to_fret_valid:
  "midi_to_fret note p \<noteq> - 1 \<longleftrightarrow>
     0 \<le> py_round (note - of_int p) \<and> py_round (note - of_int p) \<le> 24"
  unfolding midi_to_fret_def Let_def by simp

lemma midi_to_fret_eq:
  "0 \<le> py_round (note - of_int p) \<Longrightarrow> py_round (note - of_int p) \<le> 24 \<Longrightarrow>
     midi_to_fret note p = py_round (note - of_int p)"
  unfolding midi_to_fret_def Let_def by simp

lemma fret_dichotomy:
  "(midi_to_fret note p = - 1 \<or> f < midi_to_fret note p) \<longleftrightarrow>
   (0 \<le> py_round (note - of_int p) \<and> py_round (note - of_int p) \<le> 24 \<longrightarrow>
      f < py_round (note - of_int p))" if "0 \<le> f" for f :: int
  using that unfolding midi_to_fret_def Let_def by auto

lemma fret_dichotomy_le:
  "(midi_to_fret note p = - 1 \<or> f \<le> midi_to_fret note p) \<longleftrightarrow>
   (0 \<le> py_round (note - of_int p) \<and> py_round (note - of_int p) \<le> 24 \<longrightarrow>
      f \<le> py_round (note - of_int p))" if "0 \<le> f" for f :: int
  using that unfolding midi_to_fret_def Let_def by auto

text \<open>
  C1. For a note that is not NaN, the loop over the strings computes for each string
  \<open>fret = round (note - open string)\<close>, keeps the candidates with \<open>0 \<le> fret \<le> 24\<close>
  (\<^verbatim>\<open>midi_to_fret\<close> gives \<open>- 1\<close> for the others), and ends with the candidate of the smallest
  fret: every valid candidate declared earlier in the tuning has a strictly larger fret,
  every valid candidate declared later has a fret at least as large, so that a tie goes to
  the string declared first. With no valid candidate \<^verbatim>\<open>best_string\<close> stays \<^verbatim>\<open>None\<close>.
\<close>

theorem mapper_selects_first_minimal_fret:
  assumes "best_string_loop note tuning (None, 100) = (best_string, min_fret)"
  shows "(\<forall>p. midi_to_fret note p =
            (if 0 \<le> py_round (note - of_int p) \<and> py_round (note - of_int p) \<le> 24
             then py_round (note - of_int p) else - 1)) \<and>
         (if \<exists>(s, p) \<in> set tuning.
               0 \<le> py_round (note - of_int p) \<and> py_round (note - of_int p) \<le> 24
          then \<exists>pre s p post.
                 tuning = pre @ (s, p) # post \<and> best_string = Some s \<and>
                 min_fret = py_round (note - of_int p) \<and> 0 \<le> min_fret \<and> min_fret \<le> 24 \<and>
                 (\<forall>(s', p') \<in> set pre.
                    0 \<le> py_round (note - of_int p') \<and> py_round (note - of_int p') \<le> 24 \<longrightarrow>
                    min_fret < py_round (note - of_int p')) \<and>
                 (\<forall>(s', p') \<in> set post.
                    0 \<le> py_round (note - of_int p') \<and> py_round (note - of_int p') \<le> 24 \<longrightarrow>
                    min_fret \<le> py_round (note - of_int p'))
          else best_string = None)"
proof (intro conjI)
  show "\<forall>p. midi_to_fret note p =
            (if 0 \<le> py_round (note - of_int p) \<and> py_round (note - of_int p) \<le> 24
             then py_round (note - of_int p) else - 1)"
    unfolding midi_to_fret_def Let_def by simp
next
  let ?valid = "\<exists>(s, p) \<in> set tuning.
               0 \<le> py_round (note - of_int p) \<and> py_round (note - of_int p) \<le> 24"
  from best_string_loop_start[OF assms]
  show "if ?valid
          then \<exists>pre s p post.
                 tuning = pre @ (s, p) # post \<and> best_string = Some s \<and>
                 min_fret = py_round (note - of_int p) \<and> 0 \<le> min_fret \<and> min_fret \<le> 24 \<and>
                 (\<forall>(s', p') \<in> set pre.
                    0 \<le> py_round (note - of_int p') \<and> py_round (note - of_int p') \<le> 24 \<longrightarrow>
                    min_fret < py_round (note - of_int p')) \<and>
                 (\<forall>(s', p') \<in> set post.
                    0 \<le> py_round (note - of_int p') \<and> py_round (note - of_int p') \<le> 24 \<longrightarrow>
                    min_fret \<le> py_round (note - of_int p'))
          else best_string = None"
  proof
    assume h: "best_string = None \<and> min_fret = 100 \<and> (\<forall>(s, p)\<in>set tuning. midi_to_fret note p = - 1)"
    then have "\<forall>(s, p)\<in>set tuning. \<not> (0 \<le> py_round (note - of_int p) \<and> py_round (note - of_int p) \<le> 24)"
      using midi_to_fret_valid[of "note"] by fastforce
    then have "\<not> ?valid" by fastforce
    with h show ?thesis by simp
  next
    assume "\<exists>pre s p post. tuning = pre @ (s, p) # post \<and> best_string = Some s \<and> min_fret = midi_to_fret note p \<and>
          0 \<le> midi_to_fret note p \<and> midi_to_fret note p \<le> 24 \<and>
          (\<forall>(s', p') \<in> set pre. midi_to_fret note p' = - 1 \<or> midi_to_fret note p < midi_to_fret note p') \<and>
          (\<forall>(s', p') \<in> set post. midi_to_fret note p' = - 1 \<or> midi_to_fret note p \<le> midi_to_fret note p')"
    then obtain pre s p post where h: "tuning = pre @ (s, p) # post" "best_string = Some s"
          "min_fret = midi_to_fret note p"
          "0 \<le> midi_to_fret note p" "midi_to_fret note p \<le> 24"
          "\<forall>(s', p') \<in> set pre. midi_to_fret note p' = - 1 \<or> midi_to_fret note p < midi_to_fret note p'"
          "\<forall>(s', p') \<in> set post. midi_to_fret note p' = - 1 \<or> midi_to_fret note p \<le> midi_to_fret note p'"
      by blast
    from h(4) have ne: "midi_to_fret note p \<noteq> - 1" by simp
    then have v: "0 \<le> py_round (note - of_int p)" "py_round (note - of_int p) \<le> 24"
      by (simp_all add: midi_to_fret_valid)
    then have eq: "midi_to_fret note p = py_round (note - of_int p)" by (rule midi_to_fret_eq)
    have valid: ?valid using h(1) v by auto
    have m0: "0 \<le> min_fret" using h(3,4) by simp
    have pre: "\<forall>(s', p') \<in> set pre.
                    0 \<le> py_round (note - of_int p') \<and> py_round (note - of_int p') \<le> 24 \<longrightarrow>
                    min_fret < py_round (note - of_int p')"
      using h(6) fret_dichotomy[OF m0, of "note"] unfolding h(3) by fastforce
    have post: "\<forall>(s', p') \<in> set post.
                    0 \<le> py_round (note - of_int p') \<and> py_round (note - of_int p') \<le> 24 \<longrightarrow>
                    min_fret \<le> py_round (note - of_int p')"
      using h(7) fret_dichotomy_le[OF m0, of "note"] unfolding h(3) by fastforce
    have "tuning = pre @ (s, p) # post \<and> best_string = Some s \<and>
                 min_fret = py_round (note - of_int p) \<and> 0 \<le> min_fret \<and> min_fret \<le> 24 \<and>
                 (\<forall>(s', p') \<in> set pre.
                    0 \<le> py_round (note - of_int p') \<and> py_round (note - of_int p') \<le> 24 \<longrightarrow>
                    min_fret < py_round (note - of_int p')) \<and>
                 (\<forall>(s', p') \<in> set post.
                    0 \<le> py_round (note - of_int p') \<and> py_round (note - of_int p') \<le> 24 \<longrightarrow>
                    min_fret \<le> py_round (note - of_int p'))"
      using h(1,2,3,5) eq m0 pre post by (intro conjI) simp_all
    then have "\<exists>pre s p post. tuning = pre @ (s, p) # post \<and> best_string = Some s \<and>
                 min_fret = py_round (note - of_int p) \<and> 0 \<le> min_fret \<and> min_fret \<le> 24 \<and>
                 (\<forall>(s', p') \<in> set pre.
                    0 \<le> py_round (note - of_int p') \<and> py_round (note - of_int p') \<le> 24 \<longrightarrow>
                    min_fret < py_round (note - of_int p')) \<and>
                 (\<forall>(s', p') \<in> set post.
                    0 \<le> py_round (note - of_int p') \<and> py_round (note - of_int p') \<le> 24 \<longrightarrow>
                    min_fret \<le> py_round (note - of_int p'))"
      by (intro exI)
    with valid show ?thesis by (simp only: if_True)
  qed
qed

theorem mapper_selects_first_minimal_fret_witness:
  "best_string_loop (125 / 2) [(''x'', 60), (''y'', 60)] (None, 100) = (Some ''x'', 2) \<and>
   (\<exists>pre s p post.
       [(''x'', 60), (''y'', 60)] = pre @ (s, p) # post \<and> Some ''x'' = Some s \<and>
       (2 :: int) = py_round (125 / 2 - of_int p) \<and> 0 \<le> (2 :: int) \<and> (2 :: int) \<le> 24 \<and>
       (\<forall>(s', p') \<in> set pre.
          0 \<le> py_round (125 / 2 - of_int p') \<and> py_round (125 / 2 - of_int p') \<le> 24 \<longrightarrow>
          2 < py_round (125 / 2 - of_int p')) \<and>
       (\<forall>(s', p') \<in> set post.
          0 \<le> py_round (125 / 2 - of_int p') \<and> py_round (125 / 2 - of_int p') \<le> 24 \<longrightarrow>
          2 \<le> py_round (125 / 2 - of_int p')))"
proof -
  have run: "best_string_loop (125 / 2) [(''x'', 60), (''y'', 60)] (None, 100) = (Some ''x'', 2)"
    by (simp add: midi_to_fret_def py_round_def Let_def)
  have valid: "\<exists>(s, p) \<in> set [(''x'', 60), (''y'', 60 :: int)].
      0 \<le> py_round (125 / 2 - of_int p) \<and> py_round (125 / 2 - of_int p) \<le> 24"
    by (simp add: py_round_def Let_def)
  from mapper_selects_first_minimal_fret [OF run] valid run show ?thesis
    by (simp only: if_True simp_thms)
qed

section \<open>The tab lines\<close>

lemma process_note_assignment:
  "process_note note tabs = write_assignment (fret_assignment note) tabs"
proof (cases "note")
  case None
  then show ?thesis
    by (simp add: process_note_def write_assignment_def fret_assignment_def symbol_def)
next
  case (Some n)
  obtain b m where r: "best_string_loop n guitar_tuning (None, 100) = (b, m)"
    by (cases "best_string_loop n guitar_tuning (None, 100)")
  show ?thesis
  proof (cases b)
    case None
    with Some r show ?thesis
      by (simp add: process_note_def write_assignment_def fret_assignment_def symbol_def)
  next
    case (Some s)
    with \<open>note = Some n\<close> r show ?thesis
      by (auto simp add: process_note_def write_assignment_def fret_assignment_def symbol_def)
  qed
qed

lemma process_notes_assignments:
  "process_notes ns tabs = write_assignments (map fret_assignment ns) tabs"
  by (induction ns arbitrary: tabs) (simp_all add: process_note_assignment)

lemma write_assignments_lines:
  "write_assignments as tabs = map (\<lambda>(k, syms). (k, syms @ map (\<lambda>a. symbol a k) as)) tabs"
proof (induction as arbitrary: tabs)
  case Nil
  then show ?case by (simp add: split_def)
next
  case (Cons a as)
  then show ?case by (simp add: write_assignment_def split_def comp_def)
qed

lemma written_lines:
  "write_assignments as empty_tab_lines =
     map (\<lambda>(k, p). (k, map (\<lambda>a. symbol a k) as)) guitar_tuning"
  by (simp add: write_assignments_lines empty_tab_lines_def split_def comp_def)

lemma written_line:
  "k \<in> set display_order \<Longrightarrow>
     dict_get (write_assignments as empty_tab_lines) k = Inr (map (\<lambda>a. symbol a k) as)"
  unfolding written_lines dict_get_def
  by (auto simp add: display_order_def guitar_tuning_def)

lemma map_result_Inr:
  "(\<And>x. x \<in> set xs \<Longrightarrow> f x = Inr (g x)) \<Longrightarrow> map_result f xs = Inr (map g xs)"
  by (induction xs) simp_all

lemma written_segments:
  "block_segments (write_assignments as empty_tab_lines) i =
     Inr (map (\<lambda>k. slice (map (\<lambda>a. symbol a k) as) i (i + chunk_size)) display_order)"
  unfolding block_segments_def
  by (rule map_result_Inr) (simp add: written_line)

lemma written_blocks:
  "render_blocks (write_assignments as empty_tab_lines) =
     Inr (map (\<lambda>i. block_text (map (\<lambda>k. slice (map (\<lambda>a. symbol a k) as) i (i + chunk_size))
                                    display_order))
              (range_from 0 (length as) chunk_size))"
proof -
  have "dict_get (write_assignments as empty_tab_lines) ''E'' = Inr (map (\<lambda>a. symbol a ''E'') as)"
    by (rule written_line) (simp add: display_order_def)
  then show ?thesis
    unfolding render_blocks_def
    by (simp add: written_segments map_result_Inr)
qed


section \<open>Fret bounds and unplayable notes\<close>

lemma fret_assignment_cases:
  "fret_assignment note = None \<or>
   (\<exists>s f. fret_assignment note = Some (s, f) \<and> 0 \<le> f \<and> f \<le> 24 \<and>
      s \<in> fst ` set guitar_tuning)"
proof (cases "note")
  case None
  then show ?thesis by (simp add: fret_assignment_def)
next
  case (Some n)
  obtain b m where r: "best_string_loop n guitar_tuning (None, 100) = (b, m)"
    by (cases "best_string_loop n guitar_tuning (None, 100)")
  from best_string_loop_start[OF r] show ?thesis
  proof
    assume "b = None \<and> m = 100 \<and> (\<forall>(s, p)\<in>set guitar_tuning. midi_to_fret n p = - 1)"
    with Some r show ?thesis by (simp add: fret_assignment_def)
  next
    assume "\<exists>pre s p post. guitar_tuning = pre @ (s, p) # post \<and> b = Some s \<and>
          m = midi_to_fret n p \<and> 0 \<le> midi_to_fret n p \<and> midi_to_fret n p \<le> 24 \<and>
          (\<forall>(s', p') \<in> set pre. midi_to_fret n p' = - 1 \<or> midi_to_fret n p < midi_to_fret n p') \<and>
          (\<forall>(s', p') \<in> set post. midi_to_fret n p' = - 1 \<or> midi_to_fret n p \<le> midi_to_fret n p')"
    then obtain pre s p post where h: "guitar_tuning = pre @ (s, p) # post" "b = Some s"
        "m = midi_to_fret n p" "0 \<le> midi_to_fret n p" "midi_to_fret n p \<le> 24"
      by blast
    have "(s, p) \<in> set guitar_tuning" by (simp add: h(1))
    then have "s \<in> fst ` set guitar_tuning" by force
    moreover have "fret_assignment note = Some (s, m)"
      using Some r h(2) by (simp add: fret_assignment_def)
    ultimately show ?thesis using h(3,4,5) by simp
  qed
qed

text \<open>
  C4. Whatever the note of a frame, its FretAssignment is SILENT or a string of the tuning
  with a fret \<open>f\<close>, \<open>0 \<le> f \<le> 24\<close>; and the tab lines that \<^verbatim>\<open>generate_tabs\<close> builds hold
  the symbols of these assignments and nothing else, so no fret that is written is
  negative or above 24.
\<close>

theorem emitted_frets_within_bounds:
  "(fret_assignment note = None \<or>
    (\<exists>s f. fret_assignment note = Some (s, f) \<and> 0 \<le> f \<and> f \<le> 24 \<and>
       s \<in> fst ` set guitar_tuning)) \<and>
   process_notes ns empty_tab_lines =
     write_assignments (map fret_assignment ns) empty_tab_lines"
  using fret_assignment_cases process_notes_assignments by blast








section \<open>The pitch normalizer\<close>

lemma hz_to_midi1_nan: "hz_to_midi1 None = Val None"
  by (simp add: hz_to_midi1_def where_zero_nan_def np_log2_def)

lemma hz_to_midi1_zero: "hz_to_midi1 (Some 0) = Val None"
  by (simp add: hz_to_midi1_def where_zero_nan_def np_log2_def)

lemma hz_to_midi1_a440: "hz_to_midi1 (Some 440) = Val (Some 69)"
  by (simp add: hz_to_midi1_def where_zero_nan_def np_log2_def fl_zero)

lemma fl_min_subnormal: "fl (2 powi (- 1074)) = 2 powi (- 1074)"
proof -
  define a :: real where "a = 2 powi (- 1074)"
  have a: "0 < a" unfolding a_def by (rule zero_less_power_int) simp
  have "a < 2 powi (- 1022)" unfolding a_def by (rule power_int_strict_increasing) simp_all
  then have small: "\<bar>a\<bar> < 2 powi (- 1022)" using a by (simp only: abs_of_pos)
  have "a * 2 powi 1074 = 2 powi (- 1074 + 1074)" unfolding a_def by (simp only: two_powi_add)
  also have "\<dots> = of_int 1" by simp
  finally have "py_round (a * 2 powi 1074) = 1" by (simp only: py_round_of_int)
  moreover have "fl a = of_int (py_round (a * 2 powi 1074)) * 2 powi (- 1074)"
    using a small by (intro fl_eval_subnormal) simp_all
  ultimately have "fl a = 2 powi (- 1074)" by simp
  then show ?thesis unfolding a_def .
qed

lemma fl_pos: "2 powi (- 1074) \<le> x \<Longrightarrow> 0 < fl x"
proof -
  assume "2 powi (- 1074) \<le> x"
  then have "fl (2 powi (- 1074)) \<le> fl x" by (rule fl_mono)
  then have "2 powi (- 1074) \<le> fl x" by (simp only: fl_min_subnormal)
  moreover have "(0 :: real) < 2 powi (- 1074)" by (rule zero_less_power_int) simp
  ultimately show ?thesis by linarith
qed

lemma quotient_no_underflow:
  assumes "2 powi (- 1065) \<le> \<bar>f\<bar>"
  shows "fl (f / 440) \<noteq> 0"
proof -
  have "(2 :: real) powi (- 1074) * 440 \<le> 2 powi (- 1074) * 2 powi 9" by (intro mult_left_mono) simp_all
  also have "\<dots> = 2 powi (- 1074 + 9)" by (simp only: two_powi_add)
  also have "\<dots> = 2 powi (- 1065)" by simp
  finally have "2 powi (- 1074) * 440 \<le> \<bar>f\<bar>" using assms by linarith
  then have q: "2 powi (- 1074) \<le> \<bar>f\<bar> / 440" by (simp only: pos_le_divide_eq) 
  show ?thesis
  proof (cases "0 \<le> f")
    case True
    with q have "2 powi (- 1074) \<le> f / 440" by simp
    then have "0 < fl (f / 440)" by (rule fl_pos)
    then show ?thesis by simp
  next
    case False
    with q have "2 powi (- 1074) \<le> - f / 440" by simp
    then have "0 < fl (- f / 440)" by (rule fl_pos)
    then have "0 < - fl (f / 440)" using fl_minus[of "f / 440"] by simp
    then show ?thesis by simp
  qed
qed

lemma hz_to_midi1_negative:
  "f < 0 \<Longrightarrow> fl (f / 440) \<noteq> 0 \<Longrightarrow> hz_to_midi1 (Some f) = Val None"
proof -
  assume f: "f < 0" and n: "fl (f / 440) \<noteq> 0"
  have "fl (f / 440) \<le> fl 0" using f by (intro fl_mono) simp
  with n have "fl (f / 440) < 0" by (simp add: fl_zero)
  then show ?thesis using f by (simp add: hz_to_midi1_def where_zero_nan_def np_log2_def)
qed

lemma hz_to_midi1_positive:
  "0 < f \<Longrightarrow> fl (f / 440) \<noteq> 0 \<Longrightarrow>
     hz_to_midi1 (Some f) = Val (Some (fl (fl (12 * fl (log 2 (fl (f / 440)))) + 69)))"
proof -
  assume f: "0 < f" and n: "fl (f / 440) \<noteq> 0"
  have "0 \<le> fl (f / 440)" using f by (intro fl_nonneg) simp
  with n have "0 < fl (f / 440)" by simp
  then show ?thesis using f by (simp add: hz_to_midi1_def where_zero_nan_def np_log2_def)
qed

lemma hz_to_midi1_underflow:
  "f \<noteq> 0 \<Longrightarrow> fl (f / 440) = 0 \<Longrightarrow> hz_to_midi1 (Some f) = NegInf"
  by (simp add: hz_to_midi1_def where_zero_nan_def np_log2_def)

lemma hz_next_440: "hz_to_midi1 (Some (440 + 1 / 2 ^ 44)) = Val (Some 69)"
proof -
  have "hz_to_midi1 (Some (440 + 1 / 2 ^ 44)) =
      Val (Some (fl (fl (12 * fl (log 2 (fl ((440 + 1 / 2 ^ 44) / 440)))) + 69)))"
    by (rule hz_to_midi1_positive) (simp_all only: fl_quotient_next_440, simp_all)
  then show ?thesis by (simp only: fl_quotient_next_440 semitone_next_440)
qed

lemma hz_tiny: "hz_to_midi1 (Some (2 powi (- 1074))) = NegInf"
  "hz_to_midi1 (Some (- (2 powi (- 1074)))) = NegInf"
proof -
  have nz: "(2 :: real) powi (- 1074) \<noteq> 0" by simp
  show "hz_to_midi1 (Some (2 powi (- 1074))) = NegInf"
    using nz fl_underflow by (rule hz_to_midi1_underflow)
  have "fl (- (2 powi (- 1074)) / 440) = 0"
    using fl_minus[of "2 powi (- 1074) / 440"] fl_underflow by simp
  moreover have "- ((2 :: real) powi (- 1074)) \<noteq> 0" by simp
  ultimately show "hz_to_midi1 (Some (- (2 powi (- 1074)))) = NegInf"
    by (intro hz_to_midi1_underflow)
qed

text \<open>
  C3, as the code has it. At every index of the input arrays (of equal length): a frame
  that is flagged unvoiced, or whose frequency is NaN or 0, is normalised to NaN, the
  silence sentinel, and so is a frame of negative frequency \<open>f\<close> when the quotient
  \<^verbatim>\<open>f / 440.0\<close> does not underflow to zero. A frame of positive frequency \<open>f\<close> whose quotient
  does not underflow gets the float64 evaluation of \<open>12 * log\<^sub>2 (f / 440) + 69\<close>, in which
  the quotient, the logarithm, the product and the sum are each rounded to the nearest
  float64: it is that rounded value, not the exact real one. No quotient underflows for a
  frequency of magnitude at least \<open>2 powi (- 1065)\<close>, and a voiced frame of 440 Hz gives the
  semitone 69 exactly.
\<close>

theorem normalizer_per_index:
  assumes "mask_unvoiced f0 voiced_flag = Inr masked" and "i < length f0"
  shows "length (hz_to_midi masked) = length f0 \<and>
     (\<not> voiced_flag ! i \<or> f0 ! i = None \<or> f0 ! i = Some 0
        \<longrightarrow> hz_to_midi masked ! i = Val None) \<and>
     (\<forall>f. voiced_flag ! i \<and> f0 ! i = Some f \<and> f < 0 \<and> fl (f / 440) \<noteq> 0
        \<longrightarrow> hz_to_midi masked ! i = Val None) \<and>
     (\<forall>f. voiced_flag ! i \<and> f0 ! i = Some f \<and> 0 < f \<and> fl (f / 440) \<noteq> 0
        \<longrightarrow> hz_to_midi masked ! i =
              Val (Some (fl (fl (12 * fl (log 2 (fl (f / 440)))) + 69)))) \<and>
     (\<forall>f. 2 powi (- 1065) \<le> \<bar>f\<bar> \<longrightarrow> fl (f / 440) \<noteq> 0) \<and>
     hz_to_midi1 (Some 440) = Val (Some 69)"
proof -
  from assms(1) have len: "length voiced_flag = length f0"
    and m: "masked = map (\<lambda>(f, v). if v then f else None) (zip f0 voiced_flag)"
    by (auto simp add: mask_unvoiced_def split: if_splits)
  from len assms(2) have at: "hz_to_midi masked ! i = hz_to_midi1 (if voiced_flag ! i then f0 ! i else None)"
    by (simp add: m hz_to_midi_def)
  have "length (hz_to_midi masked) = length f0" using len by (simp add: m hz_to_midi_def)
  moreover have "\<not> voiced_flag ! i \<or> f0 ! i = None \<or> f0 ! i = Some 0
        \<longrightarrow> hz_to_midi masked ! i = Val None"
    unfolding at by (auto simp add: hz_to_midi1_nan hz_to_midi1_zero)
  moreover have "\<forall>f. voiced_flag ! i \<and> f0 ! i = Some f \<and> f < 0 \<and> fl (f / 440) \<noteq> 0
        \<longrightarrow> hz_to_midi masked ! i = Val None"
    unfolding at by (auto simp add: hz_to_midi1_negative)
  moreover have "\<forall>f. voiced_flag ! i \<and> f0 ! i = Some f \<and> 0 < f \<and> fl (f / 440) \<noteq> 0
        \<longrightarrow> hz_to_midi masked ! i =
              Val (Some (fl (fl (12 * fl (log 2 (fl (f / 440)))) + 69)))"
    unfolding at by (auto simp add: hz_to_midi1_positive)
  moreover have "\<forall>f. 2 powi (- 1065) \<le> \<bar>f\<bar> \<longrightarrow> fl (f / 440) \<noteq> 0"
    using quotient_no_underflow by blast
  ultimately show ?thesis using hz_to_midi1_a440 by (intro conjI)
qed

lemma fl_minus_five: "fl (- 5 / 440) \<noteq> 0"
proof (rule quotient_no_underflow)
  have "(2 :: real) powi (- 1065) \<le> 2 powi 0" by (rule power_int_increasing) simp_all
  then show "2 powi (- 1065) \<le> \<bar>- 5 :: real\<bar>" by simp
qed

theorem normalizer_per_index_witness:
  "mask_unvoiced [Some 440, Some 440, Some 0, Some (- 5)] [True, False, True, True] =
     Inr [Some 440, None, Some 0, Some (- 5)] \<and>
   (3 :: nat) < length [Some 440, Some 440, Some 0, Some (- 5 :: real)] \<and>
   fl (- 5 / 440) \<noteq> 0 \<and> fl (440 / 440) \<noteq> 0 \<and>
   hz_to_midi [Some 440, None, Some 0, Some (- 5)] ! 0 = Val (Some 69) \<and>
   hz_to_midi [Some 440, None, Some 0, Some (- 5)] ! 1 = Val None \<and>
   hz_to_midi [Some 440, None, Some 0, Some (- 5)] ! 2 = Val None \<and>
   hz_to_midi [Some 440, None, Some 0, Some (- 5)] ! 3 = Val None"
proof -
  have m: "mask_unvoiced [Some 440, Some 440, Some 0, Some (- 5)] [True, False, True, True] =
     Inr [Some 440, None, Some 0, Some (- 5)]"
    by (simp add: mask_unvoiced_def)
  have one: "fl (440 / 440) \<noteq> 0" by simp
  from normalizer_per_index [OF m, of 0] normalizer_per_index [OF m, of 1]
    normalizer_per_index [OF m, of 2] normalizer_per_index [OF m, of 3] m fl_minus_five one
  show ?thesis by (simp add: fl_zero)
qed

text \<open>
  C3 as stated fails in two places. A voiced frame of the frequency \<open>- 2 powi (- 1074)\<close>,
  which is \<open>\<le> 0\<close>, is normalised to minus infinity and not to the sentinel: its quotient
  by 440 underflows to zero, which the zero guard of \<^verbatim>\<open>hz_to_midi\<close> does not see. And the
  voiced frame of the float64 next above 440 gets the semitone 69, which is less than the
  exact value of the formula there.
\<close>

theorem normalizer_not_exact_counterexample:
  "mask_unvoiced [Some (- (2 powi (- 1074))), Some (440 + 1 / 2 ^ 44)] [True, True] =
     Inr [Some (- (2 powi (- 1074))), Some (440 + 1 / 2 ^ 44)] \<and>
   - (2 powi (- 1074)) \<le> (0 :: real) \<and>
   hz_to_midi [Some (- (2 powi (- 1074))), Some (440 + 1 / 2 ^ 44)] ! 0 = NegInf \<and>
   NegInf \<noteq> Val None \<and>
   (0 :: real) < 440 + 1 / 2 ^ 44 \<and>
   hz_to_midi [Some (- (2 powi (- 1074))), Some (440 + 1 / 2 ^ 44)] ! 1 = Val (Some 69) \<and>
   (69 :: real) < 12 * log 2 ((440 + 1 / 2 ^ 44) / 440) + 69"
proof -
  have "(1 :: real) < (440 + 1 / 2 ^ 44) / 440" by simp
  then have "0 < log 2 ((440 + 1 / 2 ^ 44) / 440)" by (simp only: zero_less_log_cancel_iff)
  then have "(69 :: real) < 12 * log 2 ((440 + 1 / 2 ^ 44) / 440) + 69" by simp
  moreover have "- (2 powi (- 1074)) \<le> (0 :: real)" by simp
  moreover have "(0 :: real) < 440 + 1 / 2 ^ 44" by simp
  moreover have "mask_unvoiced [Some (- (2 powi (- 1074))), Some (440 + 1 / 2 ^ 44)] [True, True] =
     Inr [Some (- (2 powi (- 1074))), Some (440 + 1 / 2 ^ 44)]"
    by (simp add: mask_unvoiced_def)
  moreover have "hz_to_midi [Some (- (2 powi (- 1074))), Some (440 + 1 / 2 ^ 44)] ! 0 = NegInf"
    by (simp only: hz_to_midi_def list.map nth_Cons_0 hz_tiny)
  moreover have "hz_to_midi [Some (- (2 powi (- 1074))), Some (440 + 1 / 2 ^ 44)] ! 1 = Val (Some 69)"
    by (simp only: hz_to_midi_def list.map hz_next_440) simp
  ultimately show ?thesis by (intro conjI) simp_all
qed

text \<open>
  C9, as the code has it. On positive frequencies the semitone value is nondecreasing:
  for \<open>0 < f1 \<le> f2\<close> the value of \<open>f1\<close> is less than or equal to the value of \<open>f2\<close> in
  the order of float64, where minus infinity (the value of a frequency whose quotient by
  440 underflows) is below every number.
\<close>

theorem semitone_nondecreasing:
  assumes "0 < f1" and "f1 \<le> f2"
  shows "semitone_le (hz_to_midi1 (Some f1)) (hz_to_midi1 (Some f2))"
proof -
  let ?d1 = "fl (f1 / 440)" and ?d2 = "fl (f2 / 440)"
  have f2: "0 < f2" using assms by simp
  have d: "?d1 \<le> ?d2" using assms by (intro fl_mono) simp
  have d1: "0 \<le> ?d1" using assms(1) by (intro fl_nonneg) simp
  show ?thesis
  proof (cases "?d1 = 0")
    case True
    then have a: "hz_to_midi1 (Some f1) = NegInf" using assms(1) by (intro hz_to_midi1_underflow) simp_all
    show ?thesis
    proof (cases "?d2 = 0")
      case True
      then have "hz_to_midi1 (Some f2) = NegInf" using f2 by (intro hz_to_midi1_underflow) simp_all
      with a show ?thesis by (simp add: semitone_le_def)
    next
      case False
      with f2 have "hz_to_midi1 (Some f2) = Val (Some (fl (fl (12 * fl (log 2 ?d2)) + 69)))"
        by (intro hz_to_midi1_positive)
      with a show ?thesis by (simp add: semitone_le_def)
    qed
  next
    case False
    with d1 have p1: "0 < ?d1" by simp
    with d have p2: "0 < ?d2" by simp
    have r1: "hz_to_midi1 (Some f1) = Val (Some (fl (fl (12 * fl (log 2 ?d1)) + 69)))"
      using assms(1) False by (intro hz_to_midi1_positive)
    have r2: "hz_to_midi1 (Some f2) = Val (Some (fl (fl (12 * fl (log 2 ?d2)) + 69)))"
      using f2 p2 by (intro hz_to_midi1_positive) simp_all
    have "log 2 ?d1 \<le> log 2 ?d2" using p1 d by simp
    then have "fl (log 2 ?d1) \<le> fl (log 2 ?d2)" by (rule fl_mono)
    then have "12 * fl (log 2 ?d1) \<le> 12 * fl (log 2 ?d2)" by simp
    then have "fl (12 * fl (log 2 ?d1)) \<le> fl (12 * fl (log 2 ?d2))" by (rule fl_mono)
    then have "fl (12 * fl (log 2 ?d1)) + 69 \<le> fl (12 * fl (log 2 ?d2)) + 69" by simp
    then have "fl (fl (12 * fl (log 2 ?d1)) + 69) \<le> fl (fl (12 * fl (log 2 ?d2)) + 69)"
      by (rule fl_mono)
    then show ?thesis by (simp only: r1 r2 semitone_le_def np_float.case option.case)
  qed
qed

lemma log2_half: "log 2 (1 / 2) = - 1"
proof -
  have "log 2 (1 / 2) = log 2 (2 powr (- 1))" by (simp add: powr_minus_divide)
  also have "\<dots> = - 1" by (simp only: log_powr_cancel)
  finally show ?thesis .
qed

lemma hz220: "hz_to_midi1 (Some 220) = Val (Some 57)"
  by (simp add: hz_to_midi1_def where_zero_nan_def np_log2_def fl_half log2_half)

theorem semitone_nondecreasing_witness:
  "(0 :: real) < 220 \<and> (220 :: real) \<le> 440 \<and>
   hz_to_midi1 (Some 220) = Val (Some 57) \<and> hz_to_midi1 (Some 440) = Val (Some 69) \<and>
   semitone_le (hz_to_midi1 (Some 220)) (hz_to_midi1 (Some 440))"
  using semitone_nondecreasing [of 220 440] hz220 hz_to_midi1_a440 by simp

text \<open>
  C9 as stated, with a strict order, fails: 440 and the float64 next above it,
  \<open>440 + 1 / 2 ^ 44\<close>, both get the semitone 69.
\<close>

theorem semitone_not_strict_counterexample:
  "(0 :: real) < 440 \<and> (440 :: real) < 440 + 1 / 2 ^ 44 \<and>
   hz_to_midi1 (Some 440) = Val (Some 69) \<and>
   hz_to_midi1 (Some (440 + 1 / 2 ^ 44)) = Val (Some 69)"
  using hz_to_midi1_a440 hz_next_440 by simp

lemma map_result_replicate:
  "f x = Inr y \<Longrightarrow> map_result f (replicate n x) = Inr (replicate n y)"
  by (induction n) simp_all

section \<open>The round trip of a constant A4 and the order of the stages\<close>


lemma stride_replicate:
  assumes "0 < k"
  shows "stride k (replicate n x) = replicate ((n + k - 1) div k) x"
proof (rule nth_equalityI)
  show len: "length (stride k (replicate n x)) = length (replicate ((n + k - 1) div k) x)"
    using assms by (simp add: stride_length)
  fix i assume i: "i < length (stride k (replicate n x))"
  then have "i < (n + k - 1) div k" using len by simp
  then have "Suc i \<le> (n + k - 1) div k" by simp
  then have "Suc i * k \<le> n + k - 1" using assms by (simp only: less_eq_div_iff_mult_less_eq)
  then have "i * k + k \<le> n + k - 1" by simp
  then have "i * k < n" using assms by arith
  then show "stride k (replicate n x) ! i = replicate ((n + k - 1) div k) x ! i"
    using assms i len by (simp add: stride_nth)
qed

lemma a440_processed:
  "processed_notes (replicate 100 (Some 440)) (replicate 100 True) = Inr (replicate 20 (Some 69))"
proof -
  have "mask_unvoiced (replicate 100 (Some 440)) (replicate 100 True) = Inr (replicate 100 (Some 440))"
    by (simp add: mask_unvoiced_def zip_replicate)
  moreover have "hz_to_midi (replicate 100 (Some 440)) = replicate 100 (Val (Some 69))"
    by (simp add: hz_to_midi_def hz_to_midi1_a440)
  moreover have "stride step (replicate 100 (Val (Some 69))) = replicate 20 (Val (Some 69))"
    by (simp add: stride_replicate step_def)
  moreover have "map_result note_of (replicate 20 (Val (Some 69))) = Inr (replicate 20 (Some 69))"
    by (rule map_result_replicate) (simp add: note_of_def)
  ultimately show ?thesis by (simp add: processed_notes_def)
qed

lemma a440_frets:
  "map (\<lambda>(s, p). (s, midi_to_fret 69 p)) guitar_tuning =
     [(''e'', 5), (''B'', 10), (''G'', 14), (''D'', 19), (''A'', 24), (''E'', - 1)]"
  by (simp add: guitar_tuning_def midi_to_fret_def py_round_def Let_def)

lemma a440_loop: "best_string_loop 69 guitar_tuning (None, 100) = (Some ''e'', 5)"
  by (simp add: guitar_tuning_def midi_to_fret_def py_round_def Let_def)

lemma a440_assignment: "fret_assignment (Some 69) = Some (''e'', 5)"
  by (simp add: fret_assignment_def a440_loop)

lemma str_int_5: "str_int 5 = ''5''"
  by (simp add: str_int_def str_nat.simps digit_def)

lemma a440_lines:
  "process_notes (replicate 20 (Some 69)) empty_tab_lines =
     [(''e'', replicate 20 ''5''), (''B'', replicate 20 ''-''), (''G'', replicate 20 ''-''),
      (''D'', replicate 20 ''-''), (''A'', replicate 20 ''-''), (''E'', replicate 20 ''-'')]"
  unfolding process_notes_assignments written_lines
  by (simp add: a440_assignment symbol_def str_int_5 guitar_tuning_def)

text \<open>
  C8. A voiced signal of constant 440 Hz over 100 frames: the 20 decimated samples are all
  the semitone 69; under the standard tuning the candidate frets are 5 on \<open>e\<close>, 10 on
  \<open>B\<close>, 14 on \<open>G\<close>, 19 on \<open>D\<close>, 24 on \<open>A\<close> and none on \<open>E\<close>; the loop selects the
  string \<open>e\<close> with fret 5, the smallest, and writes it on every column of the \<open>e\<close> line.
\<close>

theorem constant_a440_selects_e_fret_5:
  "processed_notes (replicate 100 (Some 440)) (replicate 100 True) = Inr (replicate 20 (Some 69)) \<and>
   map (\<lambda>(s, p). (s, midi_to_fret 69 p)) guitar_tuning =
     [(''e'', 5), (''B'', 10), (''G'', 14), (''D'', 19), (''A'', 24), (''E'', - 1)] \<and>
   best_string_loop 69 guitar_tuning (None, 100) = (Some ''e'', 5) \<and>
   fret_assignment (Some 69) = Some (''e'', 5) \<and>
   process_notes (replicate 20 (Some 69)) empty_tab_lines =
     [(''e'', replicate 20 ''5''), (''B'', replicate 20 ''-''), (''G'', replicate 20 ''-''),
      (''D'', replicate 20 ''-''), (''A'', replicate 20 ''-''), (''E'', replicate 20 ''-'')]"
  using a440_processed a440_frets a440_loop a440_assignment a440_lines by (intro conjI)



section \<open>Chunking and rendering\<close>

lemma chunks_concat:
  "0 < k \<Longrightarrow> n = length xs \<Longrightarrow>
     concat (map (\<lambda>j. slice xs j (j + k)) (range_from i n k)) = drop i xs"
proof (induction i n k rule: range_from.induct)
  case (1 i stop k)
  show ?case
  proof (cases "i < stop")
    case True
    with 1 have ih: "concat (map (\<lambda>j. slice xs j (j + k)) (range_from (i + k) stop k)) = drop (i + k) xs"
      by simp
    have "range_from i stop k = i # range_from (i + k) stop k"
      using True 1(2) by (subst range_from.simps) simp
    then have "concat (map (\<lambda>j. slice xs j (j + k)) (range_from i stop k)) =
        take k (drop i xs) @ drop (i + k) xs"
      using ih by (simp add: slice_def)
    also have "\<dots> = take k (drop i xs) @ drop k (drop i xs)" by (simp add: add.commute)
    also have "\<dots> = drop i xs" by (rule append_take_drop_id)
    finally show ?thesis .
  next
    case False
    then have "range_from i stop k = []" by (subst range_from.simps) simp
    with False 1(3) show ?thesis by simp
  qed
qed

lemma range_from_less: "j \<in> set (range_from i n k) \<Longrightarrow> j < n"
proof (induction i n k rule: range_from.induct)
  case (1 i stop k)
  show ?case
  proof (cases "i < stop \<and> 0 < k")
    case True
    then have "range_from i stop k = i # range_from (i + k) stop k"
      by (subst range_from.simps) simp
    with 1 True show ?thesis by auto
  next
    case False
    then have "range_from i stop k = []" by (subst range_from.simps) simp
    with 1(2) show ?thesis by simp
  qed
qed

lemma chunks_cover:
  "concat (map (\<lambda>i. slice line i (i + chunk_size)) (range_from 0 (length line) chunk_size)) = line"
  using chunks_concat [of chunk_size "length line" line 0] by (simp add: chunk_size_def)

lemma chunks_bounded:
  assumes "i \<in> set (range_from 0 (length line) chunk_size)"
  shows "0 < length (slice line i (i + chunk_size)) \<and>
         length (slice line i (i + chunk_size)) \<le> chunk_size"
  using range_from_less [OF assms] by (simp add: slice_def chunk_size_def)

lemma range_61: "range_from 0 61 chunk_size = [0, 60]"
  by (simp add: range_from.simps chunk_size_def)

lemma join_two_blocks:
  "join NL (final_output [b1, b2]) = b1 @ NL @ NL @ NL @ b2 @ NL @ NL"
  by (simp add: final_output_def)

lemma rendered_blocks:
  "render_blocks (process_notes ms empty_tab_lines) =
     Inr (map (\<lambda>i. block_text
                      (map (\<lambda>k. slice (map (\<lambda>n. symbol (fret_assignment n) k) ms) i (i + chunk_size))
                           display_order))
              (range_from 0 (length ms) chunk_size))"
  by (simp add: process_notes_assignments written_blocks comp_def)

lemma rendered_segments:
  "block_segments (process_notes ms empty_tab_lines) i =
     Inr (map (\<lambda>k. slice (map (\<lambda>n. symbol (fret_assignment n) k) ms) i (i + chunk_size))
              display_order)"
  by (simp add: process_notes_assignments written_segments comp_def)

text \<open>
  C7. With the chunk width 60, 61 decimated samples are rendered as exactly two blocks,
  and every string line of the second block (the segments at offset 60) holds exactly one
  symbol. In general the blocks are the slices at the offsets \<open>0, 60, 120, \<dots>\<close> of the
  string lines: consecutive chunks that together give the line again, each of at least
  one and at most 60 symbols.
\<close>

theorem sixty_one_samples_make_two_blocks:
  assumes "length ns = 61"
  shows "(\<exists>b1 b2. render_blocks (process_notes ns empty_tab_lines) = Inr [b1, b2]) \<and>
         (\<exists>segments. block_segments (process_notes ns empty_tab_lines) 60 = Inr segments \<and>
            length segments = 6 \<and> list_all (\<lambda>segment. length segment = 1) segments) \<and>
         render_blocks (process_notes ms empty_tab_lines) =
           Inr (map (\<lambda>i. block_text
                      (map (\<lambda>k. slice (map (\<lambda>n. symbol (fret_assignment n) k) ms) i (i + chunk_size))
                           display_order))
              (range_from 0 (length ms) chunk_size)) \<and>
         concat (map (\<lambda>i. slice line i (i + chunk_size))
                     (range_from 0 (length line) chunk_size)) = line \<and>
         (\<forall>i \<in> set (range_from 0 (length line) chunk_size).
            0 < length (slice line i (i + chunk_size)) \<and>
            length (slice line i (i + chunk_size)) \<le> chunk_size)"
proof (intro conjI)
  show "\<exists>b1 b2. render_blocks (process_notes ns empty_tab_lines) = Inr [b1, b2]"
    by (simp add: rendered_blocks assms range_61)
  show "\<exists>segments. block_segments (process_notes ns empty_tab_lines) 60 = Inr segments \<and>
            length segments = 6 \<and> list_all (\<lambda>segment. length segment = 1) segments"
    by (simp add: rendered_segments assms display_order_def slice_def chunk_size_def)
  show "render_blocks (process_notes ms empty_tab_lines) =
           Inr (map (\<lambda>i. block_text
                      (map (\<lambda>k. slice (map (\<lambda>n. symbol (fret_assignment n) k) ms) i (i + chunk_size))
                           display_order))
              (range_from 0 (length ms) chunk_size))"
    by (rule rendered_blocks)
  show "concat (map (\<lambda>i. slice line i (i + chunk_size))
                     (range_from 0 (length line) chunk_size)) = line"
    by (rule chunks_cover)
  show "\<forall>i \<in> set (range_from 0 (length line) chunk_size).
            0 < length (slice line i (i + chunk_size)) \<and>
            length (slice line i (i + chunk_size)) \<le> chunk_size"
    using chunks_bounded by blast
qed

theorem sixty_one_samples_make_two_blocks_witness:
  "length (replicate 61 (None :: f64)) = 61 \<and>
   (\<exists>b1 b2. render_blocks (process_notes (replicate 61 None) empty_tab_lines) = Inr [b1, b2]) \<and>
   (\<exists>segments. block_segments (process_notes (replicate 61 None) empty_tab_lines) 60 = Inr segments \<and>
      length segments = 6 \<and> list_all (\<lambda>segment. length segment = 1) segments)"
proof -
  have l: "length (replicate 61 (None :: f64)) = 61" by simp
  from sixty_one_samples_make_two_blocks [OF l] l show ?thesis by blast
qed

lemma silent_301:
  "processed_notes (replicate 301 None) (replicate 301 False) = Inr (replicate 61 None)"
proof -
  have "mask_unvoiced (replicate 301 None) (replicate 301 False) = Inr (replicate 301 None)"
    by (simp add: mask_unvoiced_def zip_replicate)
  moreover have "hz_to_midi (replicate 301 None) = replicate 301 (Val None)"
    by (simp add: hz_to_midi_def hz_to_midi1_nan)
  moreover have "stride step (replicate 301 (Val None)) = replicate 61 (Val None)"
    by (simp add: stride_replicate step_def)
  moreover have "map_result note_of (replicate 61 (Val None)) = Inr (replicate 61 None)"
    by (rule map_result_replicate) (simp add: note_of_def)
  ultimately show ?thesis by (simp add: processed_notes_def)
qed

lemma silent_blocks:
  "render_blocks (process_notes (replicate 61 None) empty_tab_lines) =
     Inr [block_text (map (\<lambda>k. replicate 60 ''-'') display_order), block_text (map (\<lambda>k. [''-'']) display_order)]"
proof -
  have s: "symbol (fret_assignment None) k = ''-''" for k
    by (simp add: fret_assignment_def symbol_def)
  have a: "slice (replicate 61 ''-'') 0 chunk_size = replicate 60 ''-''"
    by (simp add: slice_def chunk_size_def)
  have b: "slice (replicate 61 ''-'') 60 (60 + chunk_size) = [''-'']"
    by (simp add: slice_def chunk_size_def)
  show ?thesis
    by (simp add: rendered_blocks range_61 s a b)
qed

text \<open>
  C2. The separation of consecutive blocks. \<^verbatim>\<open>generate_tabs\<close> appends the element
  \<^verbatim>\<open>"\n"\<close> after every block and joins all elements by \<^verbatim>\<open>"\n"\<close>: the blocks come in time
  order, but between the last line of a block and the first line of the next there are
  three newline characters, that is two blank lines, not one, and two newline characters
  follow the last block. Evaluated at 301 unvoiced frames (61 decimated samples, two
  blocks):
\<close>

theorem two_blank_lines_between_blocks:
  "generate_tabs (replicate 301 None) (replicate 301 False) =
     Inr (block_text (map (\<lambda>k. replicate 60 ''-'') display_order) @ NL @ NL @ NL @
          block_text (map (\<lambda>k. [''-'']) display_order) @ NL @ NL) \<and>
   block_text (map (\<lambda>k. [''-'']) display_order) =
     ''e|-|'' @ NL @ ''B|-|'' @ NL @ ''G|-|'' @ NL @ ''D|-|'' @ NL @ ''A|-|'' @ NL @ ''E|-|''"
proof
  show "generate_tabs (replicate 301 None) (replicate 301 False) =
     Inr (block_text (map (\<lambda>k. replicate 60 ''-'') display_order) @ NL @ NL @ NL @
          block_text (map (\<lambda>k. [''-'']) display_order) @ NL @ NL)"
    by (simp add: generate_tabs_def silent_301 render_def silent_blocks join_two_blocks)
  show "block_text (map (\<lambda>k. [''-'']) display_order) =
     ''e|-|'' @ NL @ ''B|-|'' @ NL @ ''G|-|'' @ NL @ ''D|-|'' @ NL @ ''A|-|'' @ NL @ ''E|-|''"
    by (simp add: block_text_def display_order_def)
qed

end
